theory Spec2Isabelle
  imports Main "HOL-Library.Word"
begin

section \<open>Python strings\<close>

text \<open>
  A Python \<open>str\<close> is a sequence of Unicode code points, so it is modelled as a list of
  natural numbers. ASCII literals of the source are written through \<open>asc\<close>; the Chinese
  literals are written as their code points.
\<close>

type_synonym str = "nat list"

definition asc :: "string \<Rightarrow> str" where
  "asc s = map of_char s"

text \<open>
  \<open>str.isspace\<close> for one code point. Python 3 uses the same class for \<open>str.strip()\<close>
  and for \<open>\s\<close> in a \<open>str\<close> pattern.
\<close>

definition isspace :: "nat \<Rightarrow> bool" where
  "isspace c \<longleftrightarrow>
     (9 \<le> c \<and> c \<le> 13) \<or> (28 \<le> c \<and> c \<le> 32) \<or> c = 133 \<or> c = 160 \<or> c = 5760 \<or>
     (8192 \<le> c \<and> c \<le> 8202) \<or> c = 8232 \<or> c = 8233 \<or> c = 8239 \<or> c = 8287 \<or> c = 12288"

definition strip :: "str \<Rightarrow> str" where
  "strip s = rev (dropWhile isspace (rev (dropWhile isspace s)))"

definition startswith :: "str \<Rightarrow> str \<Rightarrow> bool" where
  "startswith s p \<longleftrightarrow> take (length p) s = p"

text \<open>\<open>sub in s\<close> of Python: \<open>contains s sub\<close>.\<close>

fun contains :: "str \<Rightarrow> str \<Rightarrow> bool" where
  "contains [] sub = (sub = [])"
| "contains (c # cs) sub = (startswith (c # cs) sub \<or> contains cs sub)"

text \<open>\<open>sep.join(xs)\<close>.\<close>

fun join :: "str \<Rightarrow> str list \<Rightarrow> str" where
  "join sep [] = []"
| "join sep [x] = x"
| "join sep (x # y # ys) = x @ sep @ join sep (y # ys)"

text \<open>
  \<open>str.lower()\<close>. On ASCII text it maps \<open>A..Z\<close> to \<open>a..z\<close>; on any other text it follows
  the Unicode case tables of the interpreter, which are a parameter \<open>ucd\<close> here.
\<close>

definition lower_ascii :: "nat \<Rightarrow> nat" where
  "lower_ascii c = (if 65 \<le> c \<and> c \<le> 90 then c + 32 else c)"

definition str_lower :: "(str \<Rightarrow> str) \<Rightarrow> str \<Rightarrow> str" where
  "str_lower ucd s = (if list_all (\<lambda>c. c < 128) s then map lower_ascii s else ucd s)"

section \<open>Extracted papers and the topic classifier\<close>

text \<open>
  The dictionary that \<open>extract_paper_info\<close> returns. \<open>title\<close> and \<open>summary\<close> are results
  of \<open>str.strip()\<close>; the four other fields are whatever the input record holds.
\<close>

record 'j extracted_paper =
  title :: str
  original_title :: 'j
  summary :: str
  paper_url :: 'j
  arxiv_url :: 'j
  code_url :: 'j

definition topic_keywords :: "str list" where
  "topic_keywords = [asc ''LLM'', asc ''Vision'', asc ''Audio'', asc ''MultiModal'', asc ''NLP'',
                     asc ''RL'', asc ''Transformer'', asc ''GPT'', asc ''AIGC'', asc ''Diffusion'']"

text \<open>The default label, U+7EFC U+5408 U+9886 U+57DF.\<close>

definition default_topic :: str where
  "default_topic = [32508, 21512, 39046, 22495]"

text \<open>\<open>content = title + ' ' + summary\<close>, both lower-cased.\<close>

definition content_of :: "(str \<Rightarrow> str) \<Rightarrow> ('j, 'z) extracted_paper_scheme \<Rightarrow> str" where
  "content_of ucd p = str_lower ucd (title p) @ asc '' '' @ str_lower ucd (summary p)"

text \<open>The inner loop \<open>for keyword in keywords\<close>, with \<open>topics\<close> as the state.\<close>

fun scan_keywords :: "(str \<Rightarrow> str) \<Rightarrow> str \<Rightarrow> str list \<Rightarrow> str list \<Rightarrow> str list" where
  "scan_keywords ucd content [] topics = topics"
| "scan_keywords ucd content (keyword # ks) topics =
     scan_keywords ucd content ks
       (if contains content (str_lower ucd keyword) \<and> keyword \<notin> set topics
        then topics @ [keyword] else topics)"

text \<open>The outer loop \<open>for paper in papers\<close>.\<close>

fun scan_papers ::
  "(str \<Rightarrow> str) \<Rightarrow> str list \<Rightarrow> ('j, 'z) extracted_paper_scheme list \<Rightarrow> str list \<Rightarrow> str list" where
  "scan_papers ucd kws [] topics = topics"
| "scan_papers ucd kws (paper # ps) topics =
     scan_papers ucd kws ps (scan_keywords ucd (content_of ucd paper) kws topics)"

text \<open>The body of \<open>get_hot_topics\<close> over a keyword list, and the function with its own list.\<close>

definition hot_topics_over ::
  "(str \<Rightarrow> str) \<Rightarrow> str list \<Rightarrow> ('j, 'z) extracted_paper_scheme list \<Rightarrow> str" where
  "hot_topics_over ucd kws ps =
     (let topics = scan_papers ucd kws ps []
      in if topics \<noteq> [] then join (asc '', '') topics else default_topic)"

definition get_hot_topics :: "(str \<Rightarrow> str) \<Rightarrow> ('j, 'z) extracted_paper_scheme list \<Rightarrow> str" where
  "get_hot_topics ucd ps = hot_topics_over ucd topic_keywords ps"

section \<open>Regular expressions of Python's \<open>re\<close>\<close>

text \<open>
  The three patterns of \<open>extract_paper_info\<close> use literals, character classes, greedy
  and lazy repetition of a character class, one capturing group, a lookahead, alternation,
  \<open>\Z\<close> and \<open>^\<close> under \<open>re.MULTILINE\<close>. The matcher below is the backtracking matcher
  restricted to these constructs: \<open>ms r st\<close> lists, in the order in which backtracking
  tries them, the states in which \<open>r\<close> can finish when started in \<open>st\<close>.
\<close>

datatype cls =
    AnyChar             \<comment> \<open>\<open>.\<close> under \<open>re.DOTALL\<close>\<close>
  | Lit nat             \<comment> \<open>a literal character\<close>
  | OneOf "nat list"    \<comment> \<open>\<open>[...]\<close>\<close>
  | NoneOf "nat list"   \<comment> \<open>\<open>[^...]\<close>\<close>
  | Space               \<comment> \<open>\<open>\s\<close>\<close>

fun in_cls :: "cls \<Rightarrow> nat \<Rightarrow> bool" where
  "in_cls AnyChar c = True"
| "in_cls (Lit a) c = (c = a)"
| "in_cls (OneOf as) c = (c \<in> set as)"
| "in_cls (NoneOf as) c = (c \<notin> set as)"
| "in_cls Space c = isspace c"

datatype rx =
    Chr cls             \<comment> \<open>one character of a class\<close>
  | Star cls            \<comment> \<open>\<open>k*\<close>, greedy\<close>
  | Plus cls            \<comment> \<open>\<open>k+\<close>, greedy\<close>
  | LazyPlus cls        \<comment> \<open>\<open>k+?\<close>, lazy\<close>
  | Seq rx rx
  | Alt rx rx
  | Group rx            \<comment> \<open>the capturing group 1\<close>
  | Ahead rx            \<comment> \<open>\<open>(?=...)\<close>\<close>
  | EndZ                \<comment> \<open>\<open>\Z\<close>\<close>
  | Bol                 \<comment> \<open>\<open>^\<close> under \<open>re.MULTILINE\<close>\<close>

text \<open>
  A matcher state: whether the position is at the start of the string or just after a
  newline, the input that remains, and the text of group 1 when it has been set.
\<close>

type_synonym mstate = "bool \<times> str \<times> str option"

text \<open>
  The states after consuming \<open>0, 1, 2, ...\<close> leading characters of a class, shortest
  first.
\<close>

fun reps :: "cls \<Rightarrow> bool \<Rightarrow> str \<Rightarrow> (bool \<times> str) list" where
  "reps k b [] = [(b, [])]"
| "reps k b (c # cs) = (b, c # cs) # (if in_cls k c then reps k (c = 10) cs else [])"

fun ms :: "rx \<Rightarrow> mstate \<Rightarrow> mstate list" where
  "ms (Chr k) (b, s, g) =
     (case s of [] \<Rightarrow> [] | c # cs \<Rightarrow> if in_cls k c then [(c = 10, cs, g)] else [])"
| "ms (Star k) (b, s, g) = map (\<lambda>(b', s'). (b', s', g)) (rev (reps k b s))"
| "ms (Plus k) (b, s, g) = map (\<lambda>(b', s'). (b', s', g)) (rev (tl (reps k b s)))"
| "ms (LazyPlus k) (b, s, g) = map (\<lambda>(b', s'). (b', s', g)) (tl (reps k b s))"
| "ms (Seq r1 r2) st = concat (map (ms r2) (ms r1 st))"
| "ms (Alt r1 r2) st = ms r1 st @ ms r2 st"
| "ms (Group r) (b, s, g) =
     map (\<lambda>(b', s', g'). (b', s', Some (take (length s - length s') s))) (ms r (b, s, g))"
| "ms (Ahead r) (b, s, g) = (case ms r (b, s, g) of [] \<Rightarrow> [] | (b', s', g') # _ \<Rightarrow> [(b, s, g')])"
| "ms EndZ (b, s, g) = (if s = [] then [(b, s, g)] else [])"
| "ms Bol (b, s, g) = (if b then [(b, s, g)] else [])"

text \<open>\<open>re.search\<close>: the first match at the leftmost position that has one.\<close>

fun search_from :: "rx \<Rightarrow> bool \<Rightarrow> str \<Rightarrow> mstate option" where
  "search_from r b [] = (case ms r (b, [], None) of [] \<Rightarrow> None | m # _ \<Rightarrow> Some m)"
| "search_from r b (c # cs) =
     (case ms r (b, c # cs, None) of [] \<Rightarrow> search_from r (c = 10) cs | m # _ \<Rightarrow> Some m)"

definition re_search :: "rx \<Rightarrow> str \<Rightarrow> mstate option" where
  "re_search r s = search_from r True s"

text \<open>\<open>m.group(1)\<close>: \<open>None\<close> when the group took no part in the match.\<close>

fun group1 :: "mstate \<Rightarrow> str option" where
  "group1 (b, s, g) = g"

text \<open>A sequence of patterns, and a literal string as a pattern.\<close>

fun cat :: "rx list \<Rightarrow> rx" where
  "cat [] = Star (OneOf [])"
| "cat [r] = r"
| "cat (r # rs) = Seq r (cat rs)"

definition lit :: "str \<Rightarrow> rx" where
  "lit s = cat (map (\<lambda>c. Chr (Lit c)) s)"

text \<open>
  The markers of the translation text: the title label U+6807 U+9898, the summary label
  U+6458 U+8981, and the two colons \<open>:\<close> and U+FF1A.
\<close>

definition title_label :: str where
  "title_label = [26631, 39064]"

definition summary_label :: str where
  "summary_label = [25688, 35201]"

definition colons :: "nat list" where
  "colons = [58, 65306]"

text \<open>
  The title pattern, compiled with \<open>re.DOTALL\<close>: the title label, a colon, \<open>\s*\<close>, the
  group \<open>([^\n]+)\<close> and the lookahead \<open>(?=\s*\n\s*L[::]|\Z)\<close> with \<open>L\<close> the summary
  label. The alternation of the lookahead has the two branches \<open>\s*\n\s*L[::]\<close> and
  \<open>\Z\<close>.
\<close>

definition title_pattern :: rx where
  "title_pattern =
     cat [lit title_label, Chr (OneOf colons), Star Space, Group (Plus (NoneOf [10])),
          Ahead (Alt (cat [Star Space, Chr (Lit 10), Star Space, lit summary_label,
                           Chr (OneOf colons)])
                     EndZ)]"

text \<open>
  The summary pattern, compiled with \<open>re.DOTALL\<close>: the summary label, a colon, \<open>\s*\<close>,
  the group \<open>([^\n].+?)\<close> and the lookahead \<open>(?=\s*(?:\n\s*[^C\n]+[::]|\Z))\<close> with \<open>C\<close>
  the colon U+FF1A.
\<close>

definition summary_pattern :: rx where
  "summary_pattern =
     cat [lit summary_label, Chr (OneOf colons), Star Space,
          Group (Seq (Chr (NoneOf [10])) (LazyPlus AnyChar)),
          Ahead (Seq (Star Space)
                     (Alt (cat [Chr (Lit 10), Star Space, Plus (NoneOf [65306, 10]),
                                Chr (OneOf colons)])
                          EndZ))]"

text \<open>
  The second title pattern, compiled with \<open>re.MULTILINE\<close>: \<open>^([^\n]+)\n\s*L[::]\<close>.
\<close>

definition fallback_pattern :: rx where
  "fallback_pattern =
     cat [Bol, Group (Plus (NoneOf [10])), Chr (Lit 10), Star Space, lit summary_label,
          Chr (OneOf colons)]"

section \<open>JSON values and exceptions\<close>

text \<open>
  What \<open>json.load\<close> returns. A float is kept as its IEEE 754 bit pattern; an object keeps
  its items as an association list.
\<close>

datatype json =
    JNull
  | JBool bool
  | JInt int
  | JFloat "64 word"
  | JStr str
  | JArr "json list"
  | JObj "(str \<times> json) list"

datatype exn = AttributeError | TypeError | IndexError | JSONDecodeError | OSError

definition bind_exn :: "exn + 'a \<Rightarrow> ('a \<Rightarrow> exn + 'b) \<Rightarrow> exn + 'b" where
  "bind_exn m f = (case m of Inl e \<Rightarrow> Inl e | Inr x \<Rightarrow> f x)"

text \<open>\<open>d.get(k, default)\<close>; only a dict has the method.\<close>

fun dict_get :: "json \<Rightarrow> str \<Rightarrow> json \<Rightarrow> exn + json" where
  "dict_get (JObj kvs) k d = Inr (case map_of kvs k of Some v \<Rightarrow> v | None \<Rightarrow> d)"
| "dict_get _ k d = Inl AttributeError"

text \<open>The subject of \<open>re.search\<close> must be a string.\<close>

fun re_subject :: "json \<Rightarrow> exn + str" where
  "re_subject (JStr s) = Inr s"
| "re_subject _ = Inl TypeError"

text \<open>The receiver of \<open>.strip()\<close> must be a string.\<close>

fun strip_receiver :: "json \<Rightarrow> exn + str" where
  "strip_receiver (JStr s) = Inr s"
| "strip_receiver _ = Inl AttributeError"

text \<open>\<open>m.group(1).strip()\<close> needs a group that is not \<open>None\<close>.\<close>

definition group1_str :: "mstate \<Rightarrow> exn + str" where
  "group1_str m = (case group1 m of None \<Rightarrow> Inl AttributeError | Some g \<Rightarrow> Inr g)"

text \<open>\<open>s.split(sep, 1)\<close> for a non-empty separator, and \<open>xs[1]\<close>.\<close>

fun split_once :: "str \<Rightarrow> str \<Rightarrow> (str \<times> str) option" where
  "split_once sep [] = None"
| "split_once sep (c # cs) =
     (if startswith (c # cs) sep then Some ([], drop (length sep) (c # cs))
      else map_option (\<lambda>(a, b). (c # a, b)) (split_once sep cs))"

definition split1 :: "str \<Rightarrow> str \<Rightarrow> str list" where
  "split1 sep s = (case split_once sep s of None \<Rightarrow> [s] | Some (a, b) \<Rightarrow> [a, b])"

definition item1 :: "'a list \<Rightarrow> exn + 'a" where
  "item1 xs = (case xs of _ # y # _ \<Rightarrow> Inr y | _ \<Rightarrow> Inl IndexError)"

section \<open>The field extractor\<close>

text \<open>The literal summary marker of the last fallback: the summary label and U+FF1A.\<close>

definition summary_marker :: str where
  "summary_marker = [25688, 35201, 65306]"

definition extract_paper_info :: "json \<Rightarrow> exn + json extracted_paper" where
  "extract_paper_info paper_data =
     bind_exn (dict_get paper_data (asc ''translation'') (JStr [])) (\<lambda>tv.
     bind_exn (re_subject tv) (\<lambda>translation.
       let title_match = re_search title_pattern translation;
           summary_match = re_search summary_pattern translation;
           title_match = (case title_match of
                            None \<Rightarrow> re_search fallback_pattern translation
                          | Some m \<Rightarrow> Some m)
       in
       bind_exn (case title_match of
                   Some m \<Rightarrow> group1_str m
                 | None \<Rightarrow> bind_exn (dict_get paper_data (asc ''title'') (JStr []))
                             strip_receiver) (\<lambda>t.
       bind_exn (case summary_match of Some m \<Rightarrow> group1_str m | None \<Rightarrow> Inr []) (\<lambda>s.
       bind_exn (if strip s = [] \<and> contains translation summary_marker
                 then map_sum id strip (item1 (split1 summary_marker translation))
                 else Inr (strip s)) (\<lambda>summary_text.
       bind_exn (dict_get paper_data (asc ''title'') (JStr [])) (\<lambda>ot.
       bind_exn (dict_get paper_data (asc ''url'') (JStr [])) (\<lambda>pu.
       bind_exn (dict_get paper_data (asc ''arxiv_url'') (JStr [])) (\<lambda>au.
       bind_exn (dict_get paper_data (asc ''paper'') (JObj [])) (\<lambda>pv.
       bind_exn (dict_get pv (asc ''code'') (JStr [])) (\<lambda>cu.
         Inr \<lparr>title = strip t, original_title = ot, summary = summary_text,
              paper_url = pu, arxiv_url = au, code_url = cu\<rparr>))))))))))"

section \<open>The document renderer\<close>

text \<open>
  The library functions that the generator calls and the repository does not define:
  the Unicode case tables behind \<open>str.lower\<close>, \<open>json.load\<close> on the text of a file
  (\<open>None\<close> when it raises), \<open>str\<close> of a value that is not a string, and
  \<open>markdown.markdown\<close>.
\<close>

record pylib =
  ucd_lower :: "str \<Rightarrow> str"
  json_load :: "str \<Rightarrow> json option"
  py_str :: "json \<Rightarrow> str"
  markdown :: "str \<Rightarrow> str"

text \<open>\<open>str(n)\<close> of a non-negative integer.\<close>

fun str_nat :: "nat \<Rightarrow> str" where
  "str_nat n = (if n < 10 then [48 + n] else str_nat (n div 10) @ [48 + n mod 10])"

declare str_nat.simps [simp del]

text \<open>What \<open>{{ v }}\<close> prints, and the truth value that \<open>{% if v %}\<close> tests.\<close>

definition show_value :: "pylib \<Rightarrow> json \<Rightarrow> str" where
  "show_value lib v = (case v of JStr s \<Rightarrow> s | _ \<Rightarrow> py_str lib v)"

fun truthy :: "json \<Rightarrow> bool" where
  "truthy JNull = False"
| "truthy (JBool b) = b"
| "truthy (JInt i) = (i \<noteq> 0)"
| "truthy (JFloat w) = (push_bit 1 w \<noteq> 0)"
| "truthy (JStr s) = (s \<noteq> [])"
| "truthy (JArr xs) = (xs \<noteq> [])"
| "truthy (JObj kvs) = (kvs \<noteq> [])"

text \<open>
  The Markdown template, cut at its tags. The template engine drops the last newline of a
  template, and keeps the newlines around block tags.
\<close>

definition md_head :: str where
  \<open>md_head =
     asc ''\<newline># <img src="https://huggingface.co/datasets/huggingface/brand-assets/resolve/main/hf-logo.png" width="30"/> Hugging Face ''\<close>

definition md_stats :: str where
  \<open>md_stats =
     asc '' '' @ [35770, 25991, 26085, 25253] @ asc ''\<newline>\<newline>## '' @ [128202] @
     asc '' '' @ [20170, 26085, 35770, 25991, 32479, 35745] @ asc ''\<newline>- '' @
     [24635, 35770, 25991, 25968, 65306]\<close>

definition md_topics :: str where
  \<open>md_topics =
     asc ''\<newline>- '' @ [28909, 38376, 39046, 22495, 65306]\<close>

definition md_details :: str where
  \<open>md_details =
     asc ''\<newline>\<newline>## '' @ [128221] @ asc '' '' @ [35770, 25991, 35814, 24773] @
     asc ''\<newline>\<newline>''\<close>

definition paper_index :: str where
  \<open>paper_index =
     asc ''\<newline>### ''\<close>

definition paper_title :: str where
  \<open>paper_title =
     asc ''. ''\<close>

definition paper_original :: str where
  \<open>paper_original =
     asc ''\<newline>\<newline>**'' @ [21407, 25991, 26631, 39064, 65306] @ asc ''** ''\<close>

definition paper_summary :: str where
  \<open>paper_summary =
     asc ''\<newline>\<newline>**'' @ [25688, 35201, 65306] @ asc ''**\<newline>''\<close>

definition paper_links :: str where
  \<open>paper_links =
     asc ''\<newline>\<newline>**'' @ [35770, 25991, 38142, 25509, 65306] @
     asc ''** [HuggingFace](''\<close>

definition paper_arxiv :: str where
  \<open>paper_arxiv =
     asc '') | [arXiv](''\<close>

definition paper_links_end :: str where
  \<open>paper_links_end =
     asc '')\<newline>\<newline>''\<close>

definition paper_code :: str where
  \<open>paper_code =
     asc ''\<newline>**'' @ [20195, 30721, 38142, 25509, 65306] @ asc ''** [GitHub](''\<close>

definition paper_code_end :: str where
  \<open>paper_code_end =
     asc '')\<newline>''\<close>

definition paper_rule :: str where
  \<open>paper_rule =
     asc ''\<newline>\<newline>---\<newline>''\<close>

definition md_wordcloud :: str where
  \<open>md_wordcloud =
     asc ''\<newline>\<newline>## '' @ [128269] @ asc '' '' @
     [20851, 38190, 35789, 20113, 22270] @ asc ''\<newline>!['' @
     [20851, 38190, 35789, 20113, 22270] @ asc ''](''\<close>

definition md_trend :: str where
  \<open>md_trend =
     asc '')\<newline>\<newline>## '' @ [128200] @ asc '' '' @
     [36817, 26399, 35770, 25991, 36235, 21183] @ asc ''\<newline>!['' @
     [35770, 25991, 36235, 21183] @ asc ''](''\<close>

definition md_audio :: str where
  \<open>md_audio =
     asc '')\<newline>\<newline>## '' @ [127897, 65039] @ asc '' '' @
     [35821, 38899, 25773, 25253] @ asc ''\<newline>- ['' @
     [25910, 21548, 20170, 26085, 35770, 25991, 35299, 35835] @ asc ''](../''\<close>

definition md_foot :: str where
  \<open>md_foot =
     asc '')\<newline>\<newline>## '' @ [128241] @ asc '' '' @ [35746, 38405, 28192, 36947] @
     asc ''\<newline>- GitHub: [hf-daily-paper-newsletter-chinese](https://github.com/2404589803/hf-daily-paper-newsletter-chinese)''\<close>

record template_data =
  date :: str
  total_papers :: nat
  hot_topics :: str
  papers :: "json extracted_paper list"
  wordcloud_path :: "str option"
  trend_path :: "str option"
  audio_path :: str

text \<open>The body of \<open>{% for paper in papers %}\<close> for one paper and its \<open>loop.index\<close>.\<close>

definition render_paper :: "pylib \<Rightarrow> nat \<times> json extracted_paper \<Rightarrow> str" where
  "render_paper lib ip =
     (case ip of (i, p) \<Rightarrow>
        paper_index @ str_nat i @ paper_title @ title p @
        paper_original @ show_value lib (original_title p) @
        paper_summary @ summary p @
        paper_links @ show_value lib (paper_url p) @
        paper_arxiv @ show_value lib (arxiv_url p) @ paper_links_end @
        (if truthy (code_url p)
         then paper_code @ show_value lib (code_url p) @ paper_code_end else []) @
        paper_rule)"

text \<open>
  \<open>Template(self.template).render(**template_data)\<close>. The two image links are text of
  the template; no tag of the template reads \<open>wordcloud_path\<close> or \<open>trend_path\<close>.
\<close>

definition render_template :: "pylib \<Rightarrow> template_data \<Rightarrow> str" where
  "render_template lib td =
     md_head @ date td @ md_stats @ str_nat (total_papers td) @
     md_topics @ hot_topics td @ md_details @
     concat (map (render_paper lib) (zip [1..<Suc (length (papers td))] (papers td))) @
     md_wordcloud @ asc ''../images/keywords_wordcloud.png'' @
     md_trend @ asc ''../images/daily_papers.png'' @
     md_audio @ audio_path td @ md_foot"

text \<open>The HTML page template, cut at \<open>{{ date }}\<close> and \<open>{{ content }}\<close>.\<close>

definition html_head :: str where
  \<open>html_head =
     asc ''<!DOCTYPE html>\<newline>'' @ asc ''<html lang="zh-CN">\<newline>'' @
     asc ''<head>\<newline>'' @ asc ''    <meta charset="UTF-8">\<newline>'' @
     asc ''    <meta name="viewport" content="width=device-width, initial-scale=1.0">\<newline>'' @
     asc ''    <title>Hugging Face '' @ [35770, 25991, 26085, 25253] @ asc '' - ''\<close>

definition html_style :: str where
  \<open>html_style =
     asc ''</title>\<newline>'' @ asc ''    <style>\<newline>'' @
     asc ''        * {\<newline>'' @ asc ''            margin: 0;\<newline>'' @
     asc ''            padding: 0;\<newline>'' @
     asc ''            box-sizing: border-box;\<newline>'' @ asc ''        }\<newline>'' @
     asc ''        \<newline>'' @ asc ''        body {\<newline>'' @
     asc ''            font-family: -apple-system, BlinkMacSystemFont, '' @ [39] @
     asc ''Segoe UI'' @ [39] @ asc '', '' @ [39] @ asc ''PingFang SC'' @ [39] @ asc '', '' @
     [39] @ asc ''Hiragino Sans GB'' @ [39] @ asc '', '' @ [39] @ asc ''Microsoft YaHei'' @
     [39] @ asc '', sans-serif;\<newline>'' @ asc ''            line-height: 1.6;\<newline>'' @
     asc ''            color: #333;\<newline>'' @
     asc ''            background-color: #f5f5f5;\<newline>'' @
     asc ''            padding: 20px;\<newline>'' @ asc ''        }\<newline>'' @
     asc ''        \<newline>'' @ asc ''        .container {\<newline>'' @
     asc ''            max-width: 900px;\<newline>'' @
     asc ''            margin: 0 auto;\<newline>'' @
     asc ''            background-color: white;\<newline>'' @
     asc ''            padding: 40px;\<newline>'' @
     asc ''            border-radius: 8px;\<newline>'' @
     asc ''            box-shadow: 0 2px 8px rgba(0,0,0,0.1);\<newline>'' @
     asc ''        }\<newline>'' @ asc ''        \<newline>'' @ asc ''        h1 {\<newline>'' @
     asc ''            color: #2c3e50;\<newline>'' @
     asc ''            border-bottom: 3px solid #3498db;\<newline>'' @
     asc ''            padding-bottom: 10px;\<newline>'' @
     asc ''            margin-bottom: 30px;\<newline>'' @
     asc ''            font-size: 28px;\<newline>'' @ asc ''        }\<newline>'' @
     asc ''        \<newline>'' @ asc ''        h1 img {\<newline>'' @
     asc ''            vertical-align: middle;\<newline>'' @
     asc ''            margin-right: 10px;\<newline>'' @ asc ''        }\<newline>'' @
     asc ''        \<newline>'' @ asc ''        h2 {\<newline>'' @
     asc ''            color: #34495e;\<newline>'' @
     asc ''            margin-top: 40px;\<newline>'' @
     asc ''            margin-bottom: 20px;\<newline>'' @
     asc ''            font-size: 24px;\<newline>'' @
     asc ''            border-left: 4px solid #3498db;\<newline>'' @
     asc ''            padding-left: 15px;\<newline>'' @ asc ''        }\<newline>'' @
     asc ''        \<newline>'' @ asc ''        h3 {\<newline>'' @
     asc ''            color: #2c3e50;\<newline>'' @
     asc ''            margin-top: 30px;\<newline>'' @
     asc ''            margin-bottom: 15px;\<newline>'' @
     asc ''            font-size: 20px;\<newline>'' @ asc ''        }\<newline>'' @
     asc ''        \<newline>'' @ asc ''        p {\<newline>'' @
     asc ''            margin-bottom: 15px;\<newline>'' @
     asc ''            text-align: justify;\<newline>'' @ asc ''        }\<newline>'' @
     asc ''        \<newline>'' @ asc ''        ul {\<newline>'' @
     asc ''            margin-left: 20px;\<newline>'' @
     asc ''            margin-bottom: 20px;\<newline>'' @ asc ''        }\<newline>'' @
     asc ''        \<newline>'' @ asc ''        li {\<newline>'' @
     asc ''            margin-bottom: 8px;\<newline>'' @ asc ''        }\<newline>'' @
     asc ''        \<newline>'' @ asc ''        a {\<newline>'' @
     asc ''            color: #3498db;\<newline>'' @
     asc ''            text-decoration: none;\<newline>'' @ asc ''        }\<newline>'' @
     asc ''        \<newline>'' @ asc ''        a:hover {\<newline>'' @
     asc ''            text-decoration: underline;\<newline>'' @ asc ''        }\<newline>'' @
     asc ''        \<newline>'' @ asc ''        strong {\<newline>'' @
     asc ''            color: #2c3e50;\<newline>'' @
     asc ''            font-weight: 600;\<newline>'' @ asc ''        }\<newline>'' @
     asc ''        \<newline>'' @ asc ''        hr {\<newline>'' @
     asc ''            border: none;\<newline>'' @
     asc ''            border-top: 1px solid #e0e0e0;\<newline>'' @
     asc ''            margin: 30px 0;\<newline>'' @ asc ''        }\<newline>'' @
     asc ''        \<newline>'' @ asc ''        /* '' @ [20851, 38190, 20462, 22797] @
     asc '':'' @ [38480, 21046, 22270, 29255, 23485, 24230] @ asc '' */\<newline>'' @
     asc ''        img {\<newline>'' @ asc ''            max-width: 100%;\<newline>'' @
     asc ''            height: auto;\<newline>'' @
     asc ''            display: block;\<newline>'' @
     asc ''            margin: 20px auto;\<newline>'' @
     asc ''            border-radius: 4px;\<newline>'' @
     asc ''            box-shadow: 0 2px 4px rgba(0,0,0,0.1);\<newline>'' @
     asc ''        }\<newline>'' @ asc ''        \<newline>'' @ asc ''        /* '' @
     [30830, 20445, 22270, 29255, 23481, 22120, 20063, 26377, 23485, 24230, 38480, 21046] @
     asc '' */\<newline>'' @ asc ''        p img {\<newline>'' @
     asc ''            max-width: 100%;\<newline>'' @ asc ''        }\<newline>'' @
     asc ''        \<newline>'' @ asc ''        /* '' @
     [35770, 25991, 35814, 24773, 21306, 22495, 26679, 24335] @ asc '' */\<newline>'' @
     asc ''        .paper-section {\<newline>'' @
     asc ''            background-color: #f9f9f9;\<newline>'' @
     asc ''            padding: 20px;\<newline>'' @
     asc ''            border-radius: 6px;\<newline>'' @
     asc ''            margin-bottom: 20px;\<newline>'' @ asc ''        }\<newline>'' @
     asc ''        \<newline>'' @ asc ''        /* '' @
     [32479, 35745, 20449, 24687, 26679, 24335] @ asc '' */\<newline>'' @
     asc ''        .stats {\<newline>'' @
     asc ''            background-color: #e8f4f8;\<newline>'' @
     asc ''            padding: 15px;\<newline>'' @
     asc ''            border-radius: 6px;\<newline>'' @
     asc ''            margin-bottom: 20px;\<newline>'' @ asc ''        }\<newline>'' @
     asc ''        \<newline>'' @ asc ''        /* '' @ [21709, 24212, 24335, 35774, 35745] @
     asc '' */\<newline>'' @ asc ''        @media (max-width: 768px) {\<newline>'' @
     asc ''            .container {\<newline>'' @
     asc ''                padding: 20px;\<newline>'' @ asc ''            }\<newline>'' @
     asc ''            \<newline>'' @ asc ''            h1 {\<newline>'' @
     asc ''                font-size: 24px;\<newline>'' @ asc ''            }\<newline>'' @
     asc ''            \<newline>'' @ asc ''            h2 {\<newline>'' @
     asc ''                font-size: 20px;\<newline>'' @ asc ''            }\<newline>'' @
     asc ''            \<newline>'' @ asc ''            h3 {\<newline>'' @
     asc ''                font-size: 18px;\<newline>'' @ asc ''            }\<newline>'' @
     asc ''        }\<newline>'' @ asc ''    </style>\<newline>'' @ asc ''</head>\<newline>'' @
     asc ''<body>\<newline>'' @ asc ''    <div class="container">\<newline>'' @ asc ''        ''\<close>

definition html_foot :: str where
  \<open>html_foot =
     asc ''\<newline>'' @ asc ''    </div>\<newline>'' @ asc ''</body>\<newline>'' @
     asc ''</html>''\<close>

definition generate_html :: "pylib \<Rightarrow> str \<Rightarrow> str \<Rightarrow> str" where
  "generate_html lib markdown_content date_str =
     html_head @ date_str @ html_style @ markdown lib markdown_content @ html_foot"

section \<open>The run orchestrator\<close>

text \<open>
  The world of a run: the readable files with their decoded text, whether
  \<open>os.makedirs\<close> succeeds on a directory, whether a path can be opened for writing, the
  current date as \<open>datetime.now().strftime('%Y-%m-%d')\<close> gives it, and the log.
\<close>

datatype level = INFO | WARNING | ERROR

datatype logmsg =
    InputNotFound str       \<comment> \<open>\<open>logger.error\<close>: no data file for the date\<close>
  | NoPaperData str         \<comment> \<open>\<open>logger.info\<close>: no paper data for the date, skipped\<close>
  | NothingExtracted        \<comment> \<open>\<open>logger.warning\<close>: no paper information extracted\<close>
  | StatsNotFound           \<comment> \<open>\<open>logger.warning\<close>: no statistics file, simplified template\<close>
  | NewsletterWritten str   \<comment> \<open>\<open>logger.info\<close>: newsletter generated, with the Markdown path\<close>
  | GenerationError exn     \<comment> \<open>\<open>logger.error\<close>: error while generating, with \<open>str(e)\<close>\<close>

record world =
  files :: "str \<rightharpoonup> str"
  can_mkdir :: "str \<Rightarrow> bool"
  writable :: "str \<Rightarrow> bool"
  today :: str
  log :: "(level \<times> logmsg) list"

definition logger :: "level \<Rightarrow> logmsg \<Rightarrow> world \<Rightarrow> world" where
  "logger l m w = w\<lparr>log := log w @ [(l, m)]\<rparr>"

text \<open>\<open>os.path.join\<close> of two components, on POSIX.\<close>

definition path_join :: "str \<Rightarrow> str \<Rightarrow> str" where
  "path_join a b =
     (if startswith b (asc ''/'') then b
      else if a = [] \<or> last a = 47 then a @ b
      else a @ asc ''/'' @ b)"

definition path_exists :: "world \<Rightarrow> str \<Rightarrow> bool" where
  "path_exists w p \<longleftrightarrow> files w p \<noteq> None"

definition makedirs :: "str \<Rightarrow> world \<Rightarrow> exn + world" where
  "makedirs d w = (if can_mkdir w d then Inr w else Inl OSError)"

definition write_file :: "str \<Rightarrow> str \<Rightarrow> world \<Rightarrow> exn + world" where
  "write_file p c w =
     (if writable w p then Inr (w\<lparr>files := (files w)(p \<mapsto> c)\<rparr>) else Inl OSError)"

text \<open>A list comprehension over a function that may raise.\<close>

fun map_exn :: "('a \<Rightarrow> exn + 'b) \<Rightarrow> 'a list \<Rightarrow> exn + 'b list" where
  "map_exn f [] = Inr []"
| "map_exn f (x # xs) =
     (case f x of
        Inl e \<Rightarrow> Inl e
      | Inr y \<Rightarrow> (case map_exn f xs of Inl e \<Rightarrow> Inl e | Inr ys \<Rightarrow> Inr (y # ys)))"

definition json_path :: "str \<Rightarrow> str" where
  "json_path date_str =
     path_join (asc ''HF-day-paper-deepseek'') (date_str @ asc ''_HF_deepseek_clean.json'')"

definition stats_file :: str where
  "stats_file = path_join (asc ''stats'') (asc ''stats_report.json'')"

definition md_path :: "str \<Rightarrow> str" where
  "md_path date_str = path_join (asc ''newsletters'') (date_str @ asc ''_daily_paper.md'')"

definition html_path :: "str \<Rightarrow> str" where
  "html_path date_str = path_join (asc ''newsletters'') (date_str @ asc ''_daily_paper.html'')"

text \<open>
  The two branches that build \<open>template_data\<close>, after the probe of the statistics file.
\<close>

definition make_template_data ::
  "pylib \<Rightarrow> str \<Rightarrow> json extracted_paper list \<Rightarrow> bool \<Rightarrow> template_data" where
  "make_template_data lib date_str ps stats_present =
     (if \<not> stats_present then
        \<lparr>date = date_str, total_papers = length ps,
         hot_topics = get_hot_topics (ucd_lower lib) ps, papers = ps,
         wordcloud_path = None, trend_path = None,
         audio_path = asc ''audio/'' @ date_str @ asc ''_daily_papers.mp3''\<rparr>
      else
        \<lparr>date = date_str, total_papers = length ps,
         hot_topics = get_hot_topics (ucd_lower lib) ps, papers = ps,
         wordcloud_path = Some (asc ''images/keywords_wordcloud.png''),
         trend_path = Some (asc ''images/daily_papers.png''),
         audio_path = asc ''audio/'' @ date_str @ asc ''_daily_papers.mp3''\<rparr>)"

text \<open>
  The body of the \<open>try\<close> block: \<open>Inr\<close> a returned value, \<open>Inl\<close> an exception, each with
  the world it leaves behind.
\<close>

definition try_body :: "pylib \<Rightarrow> str \<Rightarrow> world \<Rightarrow> (exn \<times> world) + (bool \<times> world)" where
  "try_body lib date_str w =
     (let json_file = json_path date_str in
      case files w json_file of
        None \<Rightarrow> Inr (False, logger ERROR (InputNotFound date_str) w)
      | Some text_of_file \<Rightarrow>
         (case json_load lib text_of_file of
            None \<Rightarrow> Inl (JSONDecodeError, w)
          | Some papers_data \<Rightarrow>
             (case papers_data of
                JArr (r # rs) \<Rightarrow>
                 (case map_exn extract_paper_info (r # rs) of
                    Inl e \<Rightarrow> Inl (e, w)
                  | Inr ps \<Rightarrow>
                     if ps = [] then Inr (False, logger WARNING NothingExtracted w)
                     else
                       let present = path_exists w stats_file;
                           w1 = (if \<not> present then logger WARNING StatsNotFound w else w);
                           td = make_template_data lib date_str ps present;
                           newsletter_md = render_template lib td;
                           newsletter_html = generate_html lib newsletter_md date_str
                       in
                       (case makedirs (asc ''newsletters'') w1 of
                          Inl e \<Rightarrow> Inl (e, w1)
                        | Inr w2 \<Rightarrow>
                           (case write_file (md_path date_str) newsletter_md w2 of
                              Inl e \<Rightarrow> Inl (e, w2)
                            | Inr w3 \<Rightarrow>
                               (case write_file (html_path date_str) newsletter_html w3 of
                                  Inl e \<Rightarrow> Inl (e, w3)
                                | Inr w4 \<Rightarrow>
                                   Inr (True,
                                     logger INFO (NewsletterWritten (md_path date_str)) w4)))))
              | _ \<Rightarrow> Inr (False, logger INFO (NoPaperData date_str) w))))"

text \<open>
  \<open>generate_newsletter(date_str)\<close>: an absent or empty argument is replaced by the current
  date; an exception of the body is logged and becomes \<open>False\<close>.
\<close>

definition effective_date :: "str option \<Rightarrow> world \<Rightarrow> str" where
  "effective_date date_arg w =
     (case date_arg of None \<Rightarrow> today w | Some d \<Rightarrow> if d = [] then today w else d)"

definition generate_newsletter :: "pylib \<Rightarrow> str option \<Rightarrow> world \<Rightarrow> bool \<times> world" where
  "generate_newsletter lib date_arg w =
     (case try_body lib (effective_date date_arg w) w of
        Inr (result, w') \<Rightarrow> (result, w')
      | Inl (e, w') \<Rightarrow> (False, logger ERROR (GenerationError e) w'))"

section \<open>Specification-side notions\<close>

text \<open>The elements of a list in the order of their first occurrence.\<close>

fun first_seen :: "'a list \<Rightarrow> 'a list" where
  "first_seen [] = []"
| "first_seen (x # xs) = x # filter (\<lambda>y. y \<noteq> x) (first_seen xs)"

text \<open>
  The keywords of a list for which the test \<open>keyword.lower() in content\<close> holds in a
  paper, in list order.
\<close>

definition matched :: "(str \<Rightarrow> str) \<Rightarrow> str list \<Rightarrow> ('j, 'z) extracted_paper_scheme \<Rightarrow> str list" where
  "matched ucd kws p = filter (\<lambda>k. contains (content_of ucd p) (str_lower ucd k)) kws"

text \<open>One step of the classifier's accumulation: append unless already recorded.\<close>

definition add_topic :: "str list \<Rightarrow> str \<Rightarrow> str list" where
  "add_topic topics k = (if k \<in> set topics then topics else topics @ [k])"

text \<open>Two code points that are equal up to the case of the letters \<open>A..Z\<close>.\<close>

definition same_letter :: "nat \<Rightarrow> nat \<Rightarrow> bool" where
  "same_letter a b \<longleftrightarrow>
     a = b \<or> (65 \<le> a \<and> a \<le> 90 \<and> b = a + 32) \<or> (65 \<le> b \<and> b \<le> 90 \<and> a = b + 32)"

text \<open>
  Case-insensitive containment: at some position of \<open>s\<close> there is a stretch as long as
  \<open>k\<close> that equals \<open>k\<close> letter by letter up to case.
\<close>

fun occurs_ci :: "str \<Rightarrow> str \<Rightarrow> bool" where
  "occurs_ci [] k = (k = [])"
| "occurs_ci (c # cs) k =
     (list_all2 same_letter (take (length k) (c # cs)) k \<or> occurs_ci cs k)"









text \<open>What may follow the title: the end of the text, or whitespace, a newline, whitespace,
  the summary label and a colon.\<close>

definition look_title :: "str \<Rightarrow> bool" where
  "look_title s \<longleftrightarrow> s = [] \<or>
     (\<exists>v v' c rest. s = v @ 10 # v' @ 25688 # 35201 # c # rest \<and>
        list_all isspace v \<and> list_all isspace v' \<and> c \<in> set colons)"


section \<open>Notions used in the proofs\<close>

text \<open>Whether the position after consuming \<open>u\<close> is at the start of a line.\<close>

definition bol_after :: "bool \<Rightarrow> str \<Rightarrow> bool" where
  "bol_after b u = (if u = [] then b else last u = 10)"

text \<open>Patterns without a capturing group.\<close>

fun nogroup :: "rx \<Rightarrow> bool" where
  "nogroup (Group r) = False"
| "nogroup (Seq r1 r2) = (nogroup r1 \<and> nogroup r2)"
| "nogroup (Alt r1 r2) = (nogroup r1 \<and> nogroup r2)"
| "nogroup (Ahead r) = nogroup r"
| "nogroup _ = True"

text \<open>The body of the lookahead of the title pattern.\<close>

definition title_ahead :: rx where
  "title_ahead = Alt (cat [Star Space, Chr (Lit 10), Star Space, lit summary_label,
                           Chr (OneOf colons)]) EndZ"

text \<open>The body of the lookahead of the summary pattern.\<close>

definition summary_ahead :: rx where
  "summary_ahead = Seq (Star Space)
     (Alt (cat [Chr (Lit 10), Star Space, Plus (NoneOf [65306, 10]), Chr (OneOf colons)]) EndZ)"

section \<open>Concrete inputs\<close>





definition paper_plain :: "unit extracted_paper" where
  "paper_plain = \<lparr>title = asc ''Graphs'', original_title = (),
     summary = asc ''on trees'', paper_url = (), arxiv_url = (), code_url = ()\<rparr>"

text \<open>
  A run for the date \<open>2024-05-01\<close>: one record whose translation has a title line and a
  summary line, the text of its file, a library whose \<open>json.load\<close> knows that text, and
  worlds with and without the file.
\<close>

definition date0 :: str where "date0 = asc ''2024-05-01''"

definition translation0 :: str where
  "translation0 = [26631, 39064] @ asc '': '' @ [35270, 35273, 27169, 22411] @ asc ''\<newline>'' @
     [25688, 35201] @ asc '': '' @ [26412, 25991, 30740, 31350, 22270, 20687, 12290]"

definition record0 :: json where
  "record0 = JObj [(asc ''title'', JStr (asc ''Vision Models'')),
                   (asc ''url'', JStr (asc ''https://huggingface.co/papers/1'')),
                   (asc ''arxiv_url'', JStr (asc ''https://arxiv.org/abs/1'')),
                   (asc ''translation'', JStr translation0)]"

definition input0 :: str where
  \<open>input0 = asc ''[{"title": "Vision Models", "url": "https://huggingface.co/papers/1", "arxiv_url": "https://arxiv.org/abs/1", "translation": "'' @
     [26631, 39064] @ asc '': '' @ [35270, 35273, 27169, 22411] @ [92, 110] @
     [25688, 35201] @ asc '': '' @ [26412, 25991, 30740, 31350, 22270, 20687, 12290] @ asc ''"}]''\<close>

definition lib0 :: pylib where
  "lib0 = \<lparr>ucd_lower = (\<lambda>s. s),
           json_load = (\<lambda>t. if t = input0 then Some (JArr [record0]) else None),
           py_str = (\<lambda>v. []),
           markdown = (\<lambda>s. s)\<rparr>"

definition world0 :: world where
  "world0 = \<lparr>files = [json_path date0 \<mapsto> input0],
             can_mkdir = (\<lambda>d. True), writable = (\<lambda>p. True),
             today = asc ''2024-06-30'', log = []\<rparr>"

definition paper0 :: "json extracted_paper" where
  "paper0 = \<lparr>title = [35270, 35273, 27169, 22411], original_title = JStr (asc ''Vision Models''),
     summary = [26412, 25991, 30740, 31350, 22270, 20687, 12290],
     paper_url = JStr (asc ''https://huggingface.co/papers/1''),
     arxiv_url = JStr (asc ''https://arxiv.org/abs/1''), code_url = JStr []\<rparr>"

definition world_none :: world where
  "world_none = \<lparr>files = Map.empty, can_mkdir = (\<lambda>d. True), writable = (\<lambda>p. True),
                 today = asc ''2024-06-30'', log = []\<rparr>"

definition lib_empty :: pylib where
  "lib_empty = \<lparr>ucd_lower = (\<lambda>s. s),
           json_load = (\<lambda>t. if t = asc ''[]'' then Some (JArr []) else None),
           py_str = (\<lambda>v. []),
           markdown = (\<lambda>s. s)\<rparr>"

definition world_empty :: world where
  "world_empty = \<lparr>files = [json_path date0 \<mapsto> asc ''[]''],
             can_mkdir = (\<lambda>d. True), writable = (\<lambda>p. True),
             today = asc ''2024-06-30'', log = []\<rparr>"

definition world1 :: world where
  "world1 = \<lparr>files = [json_path date0 \<mapsto> input0, md_path date0 \<mapsto> asc ''old text'',
                      asc ''notes.txt'' \<mapsto> asc ''x''],
             can_mkdir = (\<lambda>d. True), writable = (\<lambda>p. True),
             today = asc ''2025-01-15'', log = [(INFO, NoPaperData (asc ''2024-04-30''))]\<rparr>"

text \<open>
  Translations for the extractor: a title line and a summary line with surrounding
  whitespace; an empty title; a title that contains the summary label; a text with the
  literal marker only; a text without labels; a line followed by a summary line.
\<close>

definition layout_title_text :: str where
  "layout_title_text = asc '' '' @ [35270, 35273] @ asc '' '' @ [27169, 22411] @ asc '' ''"

definition layout_summary_text :: str where
  "layout_summary_text = [26412, 25991, 30740, 31350] @ asc ''  ''"

definition record_layout :: json where
  "record_layout = JObj [(asc ''title'', JStr (asc ''Vision Models'')),
     (asc ''translation'', JStr (title_label @ asc '': '' @ layout_title_text @ [10] @
                                  summary_label @ asc '': '' @ layout_summary_text))]"

definition paper_layout :: "json extracted_paper" where
  "paper_layout = \<lparr>title = [35270, 35273, 32, 27169, 22411],
     original_title = JStr (asc ''Vision Models''), summary = [26412, 25991, 30740, 31350],
     paper_url = JStr [], arxiv_url = JStr [], code_url = JStr []\<rparr>"

definition record_blank_title :: json where
  "record_blank_title = JObj [(asc ''translation'',
     JStr (title_label @ asc '': '' @ [] @ [10] @ summary_label @ asc '': '' @ asc ''ab''))]"

definition paper_blank_title :: "json extracted_paper" where
  "paper_blank_title = \<lparr>title = summary_label @ asc '': ab'', original_title = JStr [],
     summary = asc ''ab'', paper_url = JStr [], arxiv_url = JStr [], code_url = JStr []\<rparr>"

definition record_label_in_title :: json where
  "record_label_in_title = JObj [(asc ''translation'',
     JStr (title_label @ asc '': '' @ (summary_label @ asc '':ab'') @ [10] @
           summary_label @ asc '': '' @ asc ''cd''))]"

definition paper_label_in_title :: "json extracted_paper" where
  "paper_label_in_title = \<lparr>title = summary_label @ asc '':ab'', original_title = JStr [],
     summary = asc ''ab'', paper_url = JStr [], arxiv_url = JStr [], code_url = JStr []\<rparr>"










section \<open>Strings: basic facts\<close>

lemma contains_iff: "contains s sub \<longleftrightarrow> (\<exists>a b. s = a @ sub @ b)"
proof (induction s)
  case Nil
  show ?case by auto
next
  case (Cons c cs)
  show ?case
  proof
    assume "contains (c # cs) sub"
    then consider "startswith (c # cs) sub" | "contains cs sub" by auto
    then show "\<exists>a b. c # cs = a @ sub @ b"
    proof cases
      case 1
      then have "c # cs = [] @ sub @ drop (length sub) (c # cs)"
        unfolding startswith_def by (metis append_Nil append_take_drop_id)
      then show ?thesis by blast
    next
      case 2
      then obtain a b where "cs = a @ sub @ b" using Cons.IH by blast
      then have "c # cs = (c # a) @ sub @ b" by simp
      then show ?thesis by blast
    qed
  next
    assume "\<exists>a b. c # cs = a @ sub @ b"
    then obtain a b where ab: "c # cs = a @ sub @ b" by blast
    show "contains (c # cs) sub"
    proof (cases a)
      case Nil
      with ab have "take (length sub) (c # cs) = sub" by simp
      then show ?thesis by (simp add: startswith_def)
    next
      case (Cons a0 as)
      with ab have "cs = as @ sub @ b" by simp
      then have "contains cs sub" using Cons.IH by blast
      then show ?thesis by simp
    qed
  qed
qed

section \<open>The topic classifier: proofs\<close>

lemma scan_keywords_foldl:
  "scan_keywords ucd c ks topics =
     foldl add_topic topics (filter (\<lambda>k. contains c (str_lower ucd k)) ks)"
  by (induction ks arbitrary: topics) (auto simp: add_topic_def)

lemma scan_papers_foldl:
  "scan_papers ucd kws ps topics = foldl add_topic topics (concat (map (matched ucd kws) ps))"
  by (induction ps arbitrary: topics) (simp_all add: scan_keywords_foldl matched_def)

lemma foldl_add_topic:
  "foldl add_topic acc xs = acc @ filter (\<lambda>x. x \<notin> set acc) (first_seen xs)"
proof (induction xs arbitrary: acc)
  case Nil
  show ?case by simp
next
  case (Cons x xs)
  show ?case
  proof (cases "x \<in> set acc")
    case True
    have "filter (\<lambda>y. y \<notin> set acc) (filter (\<lambda>y. y \<noteq> x) (first_seen xs)) =
          filter (\<lambda>y. y \<notin> set acc) (first_seen xs)"
      using True by (auto intro: filter_cong)
    with True Cons.IH [of acc] show ?thesis by (simp add: add_topic_def)
  next
    case False
    have "filter (\<lambda>y. y \<notin> set (acc @ [x])) (first_seen xs) =
          filter (\<lambda>y. y \<notin> set acc) (filter (\<lambda>y. y \<noteq> x) (first_seen xs))"
      by (auto intro: filter_cong)
    with False Cons.IH [of "acc @ [x]"] show ?thesis by (simp add: add_topic_def)
  qed
qed

lemma scan_papers_first_seen:
  "scan_papers ucd kws ps [] = first_seen (concat (map (matched ucd kws) ps))"
  by (simp add: scan_papers_foldl foldl_add_topic)



lemma first_seen_Nil_iff: "first_seen xs = [] \<longleftrightarrow> xs = []"
  by (cases xs) auto

lemma startswith_before:
  assumes "startswith (a @ c # b) k" and "c \<notin> set k"
  shows "startswith a k"
proof (cases "length k \<le> length a")
  case True
  with assms(1) show ?thesis by (simp add: startswith_def)
next
  case False
  then have "take (length k) (a @ c # b) = a @ c # take (length k - Suc (length a)) b"
    by (simp add: take_Cons')
  with assms(1) have "c \<in> set k" unfolding startswith_def by (metis in_set_conv_decomp)
  with assms(2) show ?thesis by simp
qed

lemma contains_across:
  "contains (a @ c # b) k \<Longrightarrow> c \<notin> set k \<Longrightarrow> contains a k \<or> contains b k"
proof (induction a)
  case Nil
  then show ?case using startswith_before [of "[]" c b k] by (auto simp: startswith_def)
next
  case (Cons x a)
  then show ?case using startswith_before [of "x # a" c b k] by auto
qed





lemma occurs_ci_iff:
  "occurs_ci s k \<longleftrightarrow> (\<exists>pre mid post. s = pre @ mid @ post \<and> list_all2 same_letter mid k)"
proof (induction s)
  case Nil
  show ?case by auto
next
  case (Cons c cs)
  show ?case
  proof
    assume "occurs_ci (c # cs) k"
    then consider "list_all2 same_letter (take (length k) (c # cs)) k" | "occurs_ci cs k"
      by auto
    then show "\<exists>pre mid post. c # cs = pre @ mid @ post \<and> list_all2 same_letter mid k"
    proof cases
      case 1
      have "c # cs = [] @ take (length k) (c # cs) @ drop (length k) (c # cs)" by simp
      with 1 show ?thesis by blast
    next
      case 2
      with Cons.IH obtain pre mid post where
        "cs = pre @ mid @ post" "list_all2 same_letter mid k" by blast
      then have "c # cs = (c # pre) @ mid @ post \<and> list_all2 same_letter mid k" by simp
      then show ?thesis by blast
    qed
  next
    assume "\<exists>pre mid post. c # cs = pre @ mid @ post \<and> list_all2 same_letter mid k"
    then obtain pre mid post where
      s: "c # cs = pre @ mid @ post" and m: "list_all2 same_letter mid k" by blast
    show "occurs_ci (c # cs) k"
    proof (cases pre)
      case Nil
      from m have "length mid = length k" by (rule list_all2_lengthD)
      with s Nil have "take (length k) (c # cs) = mid" by simp
      with m show ?thesis by simp
    next
      case (Cons x pre')
      with s have "cs = pre' @ mid @ post" by simp
      with m Cons.IH have "occurs_ci cs k" by blast
      then show ?thesis by simp
    qed
  qed
qed









text \<open>
  C6. When no keyword of the fixed list occurs, case-insensitively, in the title or in
  the summary of any paper, \<open>get_hot_topics\<close> returns the default label, which is not the
  empty string.
\<close>

theorem get_hot_topics_default:
  assumes "\<forall>p \<in> set ps. \<forall>k \<in> set topic_keywords.
             \<not> contains (str_lower ucd (title p)) (str_lower ucd k) \<and>
             \<not> contains (str_lower ucd (summary p)) (str_lower ucd k)"
  shows "get_hot_topics ucd ps = default_topic \<and> get_hot_topics ucd ps \<noteq> []"
proof -
  have nosp: "32 \<notin> set (str_lower ucd k)" if "k \<in> set topic_keywords" for k
    using that by (auto simp: topic_keywords_def str_lower_def asc_def lower_ascii_def)
  have "matched ucd topic_keywords p = []" if "p \<in> set ps" for p
    unfolding matched_def filter_empty_conv
  proof
    fix k assume k: "k \<in> set topic_keywords"
    show "\<not> contains (content_of ucd p) (str_lower ucd k)"
    proof
      assume "contains (content_of ucd p) (str_lower ucd k)"
      then have "contains (str_lower ucd (title p) @ 32 # str_lower ucd (summary p))
                   (str_lower ucd k)"
        by (simp add: content_of_def asc_def)
      from contains_across [OF this nosp [OF k]] assms that k show False by blast
    qed
  qed
  then have "concat (map (matched ucd topic_keywords) ps) = []" by auto
  then have "scan_papers ucd topic_keywords ps [] = []"
    by (simp add: scan_papers_first_seen first_seen_Nil_iff)
  then show ?thesis
    by (simp add: get_hot_topics_def hot_topics_over_def default_topic_def)
qed

theorem get_hot_topics_default_witness:
  "list_all (\<lambda>k. \<not> contains (str_lower id (title paper_plain)) (str_lower id k) \<and>
                 \<not> contains (str_lower id (summary paper_plain)) (str_lower id k))
     topic_keywords \<and>
   get_hot_topics id [paper_plain] = [32508, 21512, 39046, 22495]"
proof -
  have h: "\<forall>p \<in> set [paper_plain]. \<forall>k \<in> set topic_keywords.
      \<not> contains (str_lower id (title p)) (str_lower id k) \<and>
      \<not> contains (str_lower id (summary p)) (str_lower id k)"
    by (simp add: topic_keywords_def paper_plain_def asc_def str_lower_def lower_ascii_def
        startswith_def)
  from get_hot_topics_default [OF h] h show ?thesis
    by (simp add: default_topic_def list_all_iff)
qed

section \<open>The run orchestrator: proofs\<close>

lemma map_exn_length: "map_exn f xs = Inr ys \<Longrightarrow> length ys = length xs"
  by (induction xs arbitrary: ys) (auto split: sum.splits)

lemma logger_simps:
  "files (logger l m w) = files w" "log (logger l m w) = log w @ [(l, m)]"
  "can_mkdir (logger l m w) = can_mkdir w" "writable (logger l m w) = writable w"
  "today (logger l m w) = today w"
  by (simp_all add: logger_def)

text \<open>
  C7. When the input file of the date does not exist, \<open>generate_newsletter\<close> returns
  \<open>False\<close> (it returns, no exception leaves it), the only effect is one error record in
  the log, and no file is written: the files are those of before.
\<close>

theorem missing_input_fails:
  assumes "files w (json_path (effective_date date_arg w)) = None"
  shows "generate_newsletter lib date_arg w =
           (False, logger ERROR (InputNotFound (effective_date date_arg w)) w) \<and>
         files (snd (generate_newsletter lib date_arg w)) = files w"
  using assms by (simp add: generate_newsletter_def try_body_def logger_simps)

text \<open>
  C8. When the input file parses to a value that is not a non-empty list (an empty array
  included), \<open>generate_newsletter\<close> returns \<open>False\<close>, writes no file, and records the
  skip at the level \<open>INFO\<close>, not as an error.
\<close>

theorem empty_input_skipped:
  assumes "files w (json_path (effective_date date_arg w)) = Some txt"
    and "json_load lib txt = Some v"
    and "\<not> (\<exists>r rs. v = JArr (r # rs))"
  shows "generate_newsletter lib date_arg w =
           (False, logger INFO (NoPaperData (effective_date date_arg w)) w) \<and>
         files (snd (generate_newsletter lib date_arg w)) = files w"
  using assms
  by (auto simp: generate_newsletter_def try_body_def logger_simps split: json.splits list.splits)

lemma try_body_not_nothing:
  "try_body lib d w \<noteq> Inr (False, logger WARNING NothingExtracted w)"
proof -
  have neq: "logger l m w \<noteq> logger l' m' w" if "(l, m) \<noteq> (l', m')" for l m l' m'
  proof
    assume "logger l m w = logger l' m' w"
    then have "log (logger l m w) = log (logger l' m' w)" by simp
    with that show False by (simp add: logger_simps)
  qed
  show ?thesis
    by (auto simp: try_body_def Let_def neq dest!: map_exn_length
        split: option.splits json.splits list.splits sum.splits)
qed

lemma extract0: "extract_paper_info record0 = Inr paper0"
  by (simp add: extract_paper_info_def bind_exn_def record0_def translation0_def paper0_def
     re_search_def title_pattern_def summary_pattern_def fallback_pattern_def lit_def
     title_label_def summary_label_def colons_def isspace_def asc_def strip_def group1_str_def
     summary_marker_def startswith_def Let_def)

lemma contains_prefix: "contains (sub @ b) sub"
  using contains_iff [of "sub @ b" sub] by (metis append_Nil)

lemma contains_prepend: "contains s sub \<Longrightarrow> contains (p @ s) sub"
  unfolding contains_iff by (metis append.assoc)

lemma render_has_wordcloud:
  "contains (render_template lib td) (asc ''../images/keywords_wordcloud.png'')"
  unfolding render_template_def by (intro contains_prepend contains_prefix)

lemma render_has_trend:
  "contains (render_template lib td) (asc ''../images/daily_papers.png'')"
  unfolding render_template_def by (intro contains_prepend contains_prefix)

lemma md_html_paths_differ: "md_path d \<noteq> html_path d"
proof -
  have "length (md_path d) \<noteq> length (html_path d)"
    by (cases d) (auto simp: md_path_def html_path_def path_join_def startswith_def asc_def)
  then show ?thesis by auto
qed

lemma try_body_success:
  assumes "try_body lib d w = Inr (True, w')"
  shows "\<exists>txt r rs ps. files w (json_path d) = Some txt \<and> json_load lib txt = Some (JArr (r # rs)) \<and>
           map_exn extract_paper_info (r # rs) = Inr ps \<and>
           files w' = (files w)
             (md_path d \<mapsto> render_template lib (make_template_data lib d ps (path_exists w stats_file)),
              html_path d \<mapsto> generate_html lib
                 (render_template lib (make_template_data lib d ps (path_exists w stats_file))) d)"
  using assms
  by (auto simp: try_body_def Let_def makedirs_def write_file_def logger_def
      split: option.splits json.splits list.splits sum.splits if_splits)

lemma generate_success:
  assumes "fst (generate_newsletter lib da w)"
  shows "try_body lib (effective_date da w) w = Inr (True, snd (generate_newsletter lib da w))"
  using assms by (auto simp: generate_newsletter_def split: sum.splits prod.splits)

lemma paths0:
  "stats_file \<noteq> json_path date0" "md_path date0 \<noteq> json_path date0"
  "stats_file \<noteq> md_path date0" "stats_file \<noteq> asc ''notes.txt''"
  "json_path date0 \<noteq> md_path date0" "json_path date0 \<noteq> asc ''notes.txt''"
  by (simp_all add: stats_file_def json_path_def md_path_def path_join_def startswith_def
      asc_def date0_def)

lemma run0: "try_body lib0 date0 world0 =
   Inr (True, logger INFO (NewsletterWritten (md_path date0))
     ((logger WARNING StatsNotFound world0)\<lparr>files := (files world0)
        (md_path date0 \<mapsto> render_template lib0 (make_template_data lib0 date0 [paper0] False),
         html_path date0 \<mapsto> generate_html lib0
            (render_template lib0 (make_template_data lib0 date0 [paper0] False)) date0)\<rparr>))"
  by (simp add: try_body_def lib0_def world0_def extract0 path_exists_def paths0 makedirs_def
      write_file_def logger_def Let_def)

text \<open>
  C1. A run on an input file with one valid record and without the statistics file
  succeeds and creates both output files; the Markdown it writes contains the links to the
  wordcloud image and to the trend image, although the statistics file is absent.
\<close>

theorem stats_absent_markdown_keeps_image_links:
  "\<not> path_exists world0 stats_file \<and>
   fst (generate_newsletter lib0 (Some date0) world0) \<and>
   (\<exists>md html. files (snd (generate_newsletter lib0 (Some date0) world0)) (md_path date0) = Some md \<and>
       files (snd (generate_newsletter lib0 (Some date0) world0)) (html_path date0) = Some html \<and>
       contains md (asc ''../images/keywords_wordcloud.png'') \<and>
       contains md (asc ''../images/daily_papers.png''))"
proof -
  have d: "effective_date (Some date0) world0 = date0"
    by (simp add: effective_date_def date0_def asc_def)
  have g: "generate_newsletter lib0 (Some date0) world0 =
     (True, logger INFO (NewsletterWritten (md_path date0))
     ((logger WARNING StatsNotFound world0)\<lparr>files := (files world0)
        (md_path date0 \<mapsto> render_template lib0 (make_template_data lib0 date0 [paper0] False),
         html_path date0 \<mapsto> generate_html lib0
            (render_template lib0 (make_template_data lib0 date0 [paper0] False)) date0)\<rparr>))"
    by (simp add: generate_newsletter_def d run0)
  have s: "\<not> path_exists world0 stats_file"
    by (simp add: path_exists_def world0_def paths0)
  show ?thesis
    using s render_has_wordcloud render_has_trend
    by (simp add: g logger_def md_html_paths_differ)
qed

theorem missing_input_fails_witness:
  "files world_none (json_path (effective_date (Some date0) world_none)) = None \<and>
   generate_newsletter lib0 (Some date0) world_none =
     (False, logger ERROR (InputNotFound date0) world_none)"
proof -
  have h: "files world_none (json_path (effective_date (Some date0) world_none)) = None"
    by (simp add: world_none_def)
  have d: "effective_date (Some date0) world_none = date0"
    by (simp add: effective_date_def date0_def asc_def)
  from missing_input_fails [OF h, of lib0] h d show ?thesis by simp
qed

theorem empty_input_skipped_witness:
  "files world_empty (json_path (effective_date (Some date0) world_empty)) = Some (asc ''[]'') \<and>
   json_load lib_empty (asc ''[]'') = Some (JArr []) \<and>
   generate_newsletter lib_empty (Some date0) world_empty =
     (False, logger INFO (NoPaperData date0) world_empty)"
proof -
  have d: "effective_date (Some date0) world_empty = date0"
    by (simp add: effective_date_def date0_def asc_def)
  have h1: "files world_empty (json_path (effective_date (Some date0) world_empty)) = Some (asc ''[]'')"
    by (simp only: d) (simp add: world_empty_def)
  have h2: "json_load lib_empty (asc ''[]'') = Some (JArr [])"
    by (simp add: lib_empty_def)
  have h3: "\<not> (\<exists>r rs. JArr [] = JArr (r # rs))" by simp
  from empty_input_skipped [OF h1 h2 h3] h1 h2 d show ?thesis by simp
qed

text \<open>
  C10. The extraction over a non-empty list, when it returns, returns a list of the same
  length, hence a non-empty one; so \<open>generate_newsletter\<close> never leaves through the
  branch that logs the warning that nothing was extracted and returns \<open>False\<close>.
\<close>

theorem extraction_never_empty:
  "(map_exn extract_paper_info (r # rs) = Inr ps \<longrightarrow> length ps = length (r # rs) \<and> ps \<noteq> []) \<and>
   generate_newsletter lib date_arg w \<noteq> (False, logger WARNING NothingExtracted w)"
proof -
  have a: "length ps = length (r # rs) \<and> ps \<noteq> []" if "map_exn extract_paper_info (r # rs) = Inr ps"
    using map_exn_length [OF that] by auto
  have b: "generate_newsletter lib date_arg w \<noteq> (False, logger WARNING NothingExtracted w)"
  proof (cases "try_body lib (effective_date date_arg w) w")
    case (Inr rw)
    with try_body_not_nothing [of lib "effective_date date_arg w" w] show ?thesis
      by (cases rw) (auto simp: generate_newsletter_def)
  next
    case (Inl ew)
    obtain e w' where "ew = (e, w')" by (cases ew)
    with Inl have "log (snd (generate_newsletter lib date_arg w)) = log w' @ [(ERROR, GenerationError e)]"
      by (simp add: generate_newsletter_def logger_simps)
    moreover have "log (snd (False, logger WARNING NothingExtracted w)) = log w @ [(WARNING, NothingExtracted)]"
      by (simp add: logger_simps)
    ultimately show ?thesis by (metis append1_eq_conv level.distinct(5) prod.inject)
  qed
  from a b show ?thesis by blast
qed

theorem extraction_never_empty_witness:
  "map_exn extract_paper_info [record0] = Inr [paper0] \<and> length [paper0] = length [record0]"
  using extraction_never_empty [of record0 "[]" "[paper0]" lib0 None world0] by (simp add: extract0)

text \<open>
  C9. Two runs with the same explicit (non-empty) date string, in worlds that agree on
  the text of the input file and on the presence of the statistics file, and that may
  differ in everything else (the clock, the log, other files, earlier outputs), write the
  same Markdown file and the same HTML file when they both succeed.
\<close>

theorem generate_newsletter_deterministic:
  assumes "d \<noteq> []"
    and "files w1 (json_path d) = files w2 (json_path d)"
    and "path_exists w1 stats_file = path_exists w2 stats_file"
    and "fst (generate_newsletter lib (Some d) w1)"
    and "fst (generate_newsletter lib (Some d) w2)"
  shows "files (snd (generate_newsletter lib (Some d) w1)) (md_path d) =
           files (snd (generate_newsletter lib (Some d) w2)) (md_path d) \<and>
         files (snd (generate_newsletter lib (Some d) w1)) (html_path d) =
           files (snd (generate_newsletter lib (Some d) w2)) (html_path d) \<and>
         files (snd (generate_newsletter lib (Some d) w1)) (md_path d) \<noteq> None \<and>
         files (snd (generate_newsletter lib (Some d) w1)) (html_path d) \<noteq> None"
proof -
  have d1: "effective_date (Some d) w1 = d" and d2: "effective_date (Some d) w2 = d"
    using assms(1) by (simp_all add: effective_date_def)
  from generate_success [OF assms(4)] d1
  have t1: "try_body lib d w1 = Inr (True, snd (generate_newsletter lib (Some d) w1))" by simp
  from generate_success [OF assms(5)] d2
  have t2: "try_body lib d w2 = Inr (True, snd (generate_newsletter lib (Some d) w2))" by simp
  from try_body_success [OF t1] try_body_success [OF t2] assms(2,3) md_html_paths_differ [of d]
  show ?thesis by (auto simp: fun_upd_def)
qed

theorem generate_newsletter_deterministic_witness:
  "date0 \<noteq> [] \<and> files world0 (json_path date0) = files world1 (json_path date0) \<and>
   path_exists world0 stats_file = path_exists world1 stats_file \<and>
   today world0 \<noteq> today world1 \<and>
   files world0 (md_path date0) \<noteq> files world1 (md_path date0) \<and>
   fst (generate_newsletter lib0 (Some date0) world0) \<and>
   fst (generate_newsletter lib0 (Some date0) world1) \<and>
   files (snd (generate_newsletter lib0 (Some date0) world0)) (md_path date0) =
     files (snd (generate_newsletter lib0 (Some date0) world1)) (md_path date0) \<and>
   files (snd (generate_newsletter lib0 (Some date0) world0)) (html_path date0) =
     files (snd (generate_newsletter lib0 (Some date0) world1)) (html_path date0)"
proof -
  have a: "date0 \<noteq> []" by (simp add: date0_def asc_def)
  have b: "files world0 (json_path date0) = files world1 (json_path date0)"
    by (simp add: world0_def world1_def paths0)
  have c: "path_exists world0 stats_file = path_exists world1 stats_file"
    by (simp add: path_exists_def world0_def world1_def paths0)
  have d: "effective_date (Some date0) w = date0" for w
    using a by (simp add: effective_date_def)
  have e: "fst (generate_newsletter lib0 (Some date0) world0)"
    by (simp add: generate_newsletter_def d run0)
  have f: "fst (generate_newsletter lib0 (Some date0) world1)"
    by (simp add: generate_newsletter_def d try_body_def lib0_def world1_def extract0
        path_exists_def paths0 makedirs_def write_file_def logger_def Let_def)
  have g: "today world0 \<noteq> today world1" "files world0 (md_path date0) \<noteq> files world1 (md_path date0)"
    by (simp_all add: world0_def world1_def paths0 asc_def)
  from generate_newsletter_deterministic [OF a b c e f] a b c e f g show ?thesis by simp
qed

section \<open>Evaluation at the concrete inputs\<close>

lemmas eval_defs = extract_paper_info_def bind_exn_def
     re_search_def title_pattern_def summary_pattern_def fallback_pattern_def lit_def
     title_label_def summary_label_def colons_def isspace_def asc_def strip_def group1_str_def
     summary_marker_def startswith_def Let_def ms.simps split1_def item1_def

lemma eval_layout: "extract_paper_info record_layout = Inr paper_layout"
  by (simp add: eval_defs record_layout_def paper_layout_def layout_title_text_def
      layout_summary_text_def)

lemma eval_blank_title: "extract_paper_info record_blank_title = Inr paper_blank_title"
  by (simp add: eval_defs record_blank_title_def paper_blank_title_def)

lemma eval_label_in_title: "extract_paper_info record_label_in_title = Inr paper_label_in_title"
  by (simp add: eval_defs record_label_in_title_def paper_label_in_title_def)








section \<open>The matcher: the states it reaches\<close>

lemma set_reps:
  "set (reps k b s) = {(bol_after b u, s') | u s'. s = u @ s' \<and> list_all (in_cls k) u}"
proof (induction s arbitrary: b)
  case Nil
  show ?case by (auto simp: bol_after_def)
next
  case (Cons c cs)
  show ?case
  proof (cases "in_cls k c")
    case False
    have "{(bol_after b u, s') | u s'. c # cs = u @ s' \<and> list_all (in_cls k) u} = {(b, c # cs)}"
      using False by (auto simp: bol_after_def Cons_eq_append_conv)
    with False show ?thesis by simp
  next
    case True
    have "{(bol_after b u, s') | u s'. c # cs = u @ s' \<and> list_all (in_cls k) u} =
          insert (b, c # cs) {(bol_after (c = 10) u, s') | u s'. cs = u @ s' \<and> list_all (in_cls k) u}"
      (is "?L = ?R")
    proof
      show "?L \<subseteq> ?R"
      proof
        fix x assume "x \<in> ?L"
        then obtain u s' where x: "x = (bol_after b u, s')" "c # cs = u @ s'" "list_all (in_cls k) u"
          by blast
        show "x \<in> ?R"
        proof (cases u)
          case Nil
          with x show ?thesis by (simp add: bol_after_def)
        next
          case (Cons a u')
          with x have "cs = u' @ s'" "list_all (in_cls k) u'" "bol_after b u = bol_after (c = 10) u'"
            by (auto simp: bol_after_def)
          with x show ?thesis by auto
        qed
      qed
      show "?R \<subseteq> ?L"
      proof
        fix x assume "x \<in> ?R"
        then consider "x = (b, c # cs)"
          | u s' where "x = (bol_after (c = 10) u, s')" "cs = u @ s'" "list_all (in_cls k) u"
          by blast
        then show "x \<in> ?L"
        proof cases
          case 1
          then have "x = (bol_after b [], c # cs) \<and> c # cs = [] @ c # cs \<and> list_all (in_cls k) []"
            by (simp add: bol_after_def)
          then show ?thesis by blast
        next
          case 2
          then have "x = (bol_after b (c # u), s') \<and> c # cs = (c # u) @ s' \<and> list_all (in_cls k) (c # u)"
            using True by (auto simp: bol_after_def)
          then show ?thesis by blast
        qed
      qed
    qed
    with True Cons.IH [of "c = 10"] show ?thesis by simp
  qed
qed

lemma set_tl_reps:
  "set (tl (reps k b s)) =
     {(bol_after b u, s') | u s'. u \<noteq> [] \<and> s = u @ s' \<and> list_all (in_cls k) u}"
proof (cases s)
  case Nil
  then show ?thesis by auto
next
  case (Cons c cs)
  show ?thesis
  proof (cases "in_cls k c")
    case False
    with Cons show ?thesis by (auto simp: Cons_eq_append_conv)
  next
    case True
    have "set (tl (reps k b s)) = set (reps k (c = 10) cs)" using Cons True by simp
    also have "\<dots> = {(bol_after (c = 10) u, s') | u s'. cs = u @ s' \<and> list_all (in_cls k) u}"
      by (rule set_reps)
    also have "\<dots> = {(bol_after b u, s') | u s'. u \<noteq> [] \<and> s = u @ s' \<and> list_all (in_cls k) u}"
      (is "?L = ?R")
    proof
      show "?L \<subseteq> ?R"
      proof
        fix x assume "x \<in> ?L"
        then obtain u s' where "x = (bol_after (c = 10) u, s')" "cs = u @ s'" "list_all (in_cls k) u"
          by blast
        then have "x = (bol_after b (c # u), s') \<and> c # u \<noteq> [] \<and> s = (c # u) @ s' \<and> list_all (in_cls k) (c # u)"
          using True Cons by (auto simp: bol_after_def)
        then show "x \<in> ?R" by blast
      qed
      show "?R \<subseteq> ?L"
      proof
        fix x assume "x \<in> ?R"
        then obtain u s' where x: "x = (bol_after b u, s')" "u \<noteq> []" "s = u @ s'" "list_all (in_cls k) u"
          by blast
        then obtain u' where "u = c # u'" using Cons by (cases u) auto
        with x Cons have "x = (bol_after (c = 10) u', s') \<and> cs = u' @ s' \<and> list_all (in_cls k) u'"
          by (auto simp: bol_after_def)
        then show "x \<in> ?L" by blast
      qed
    qed
    finally show ?thesis .
  qed
qed

lemma in_ms_Star:
  "m \<in> set (ms (Star k) (b, s, g)) \<longleftrightarrow>
     (\<exists>u s'. s = u @ s' \<and> list_all (in_cls k) u \<and> m = (bol_after b u, s', g))"
  by (auto simp: set_reps)

lemma in_ms_Plus:
  "m \<in> set (ms (Plus k) (b, s, g)) \<longleftrightarrow>
     (\<exists>u s'. u \<noteq> [] \<and> s = u @ s' \<and> list_all (in_cls k) u \<and> m = (bol_after b u, s', g))"
  by (auto simp: set_tl_reps)

lemma in_ms_LazyPlus:
  "m \<in> set (ms (LazyPlus k) (b, s, g)) \<longleftrightarrow>
     (\<exists>u s'. u \<noteq> [] \<and> s = u @ s' \<and> list_all (in_cls k) u \<and> m = (bol_after b u, s', g))"
  by (auto simp: set_tl_reps)

lemma in_ms_Group:
  "m \<in> set (ms (Group r) (b, s, g)) \<longleftrightarrow>
     (\<exists>b' s' g'. (b', s', g') \<in> set (ms r (b, s, g)) \<and>
        m = (b', s', Some (take (length s - length s') s)))"
  by force

lemma in_ms_EndZ: "m \<in> set (ms EndZ (b, s, g)) \<longleftrightarrow> s = [] \<and> m = (b, s, g)"
  by auto

lemma nonempty_iff: "xs \<noteq> [] \<longleftrightarrow> (\<exists>x. x \<in> set xs)"
  by (cases xs) auto

section \<open>Search, stripping and splitting\<close>



lemma search_from_first:
  "ms r (b, s, None) \<noteq> [] \<Longrightarrow> \<exists>m. search_from r b s = Some m \<and> m \<in> set (ms r (b, s, None))"
  by (cases s; cases "ms r (b, s, None)") auto

lemma search_from_skip:
  "(\<And>i b'. i < length pre \<Longrightarrow> ms r (b', drop i pre @ s, None) = []) \<Longrightarrow>
   search_from r b (pre @ s) = search_from r (bol_after b pre) s"
proof (induction pre arbitrary: b)
  case Nil
  show ?case by (simp add: bol_after_def)
next
  case (Cons c pre)
  have 0: "ms r (b, (c # pre) @ s, None) = []" using Cons.prems [of 0 b] by simp
  have "search_from r (c = 10) (pre @ s) = search_from r (bol_after (c = 10) pre) s"
  proof (rule Cons.IH)
    fix i b' assume "i < length pre"
    then show "ms r (b', drop i pre @ s, None) = []" using Cons.prems [of "Suc i" b'] by simp
  qed
  moreover have "bol_after (c = 10) pre = bol_after b (c # pre)" by (simp add: bol_after_def)
  ultimately show ?case using 0 by simp
qed

lemma search_from_None:
  "(\<And>i b'. i \<le> length s \<Longrightarrow> ms r (b', drop i s, None) = []) \<Longrightarrow> search_from r b s = None"
proof (induction s arbitrary: b)
  case Nil
  then show ?case using Nil [of 0 b] by simp
next
  case (Cons c cs)
  have 0: "ms r (b, c # cs, None) = []" using Cons.prems [of 0 b] by simp
  have "search_from r (c = 10) cs = None"
  proof (rule Cons.IH)
    fix i b' assume "i \<le> length cs"
    then show "ms r (b', drop i cs, None) = []" using Cons.prems [of "Suc i" b'] by simp
  qed
  with 0 show ?case by simp
qed

lemma dropWhile_all: "list_all P xs \<Longrightarrow> dropWhile P xs = []"
  by (induction xs) auto

lemma strip_ws:
  assumes "list_all isspace u" and "list_all isspace v"
  shows "strip (u @ G @ v) = strip G"
proof -
  have 1: "dropWhile isspace (u @ G @ v) = dropWhile isspace (G @ v)"
    using assms(1) by (simp add: dropWhile_append2 list_all_iff)
  show ?thesis
  proof (cases "list_all isspace G")
    case True
    then have "list_all isspace (G @ v)" using assms(2) by simp
    then have a: "dropWhile isspace (G @ v) = []" by (rule dropWhile_all)
    have b: "dropWhile isspace G = []" using True by (rule dropWhile_all)
    show ?thesis unfolding strip_def 1 a b ..
  next
    case False
    then have a: "dropWhile isspace (G @ v) = dropWhile isspace G @ v"
      by (auto simp: list_all_iff dropWhile_append1)
    have b: "dropWhile isspace (rev v @ rev (dropWhile isspace G)) =
        dropWhile isspace (rev (dropWhile isspace G))"
      by (rule dropWhile_append2) (use assms(2) in \<open>auto simp: list_all_iff\<close>)
    show ?thesis unfolding strip_def 1 a rev_append b ..
  qed
qed

lemma strip_blank: "list_all isspace s \<Longrightarrow> strip s = []"
  by (simp add: strip_def dropWhile_all)

lemma strip_Nil_iff: "strip s = [] \<longleftrightarrow> list_all isspace s"
proof
  assume "strip s = []"
  then have a: "\<forall>x \<in> set (dropWhile isspace s). isspace x"
    by (simp add: strip_def dropWhile_eq_Nil_conv)
  have "dropWhile isspace s = []"
  proof (rule ccontr)
    assume n: "dropWhile isspace s \<noteq> []"
    then have "\<not> isspace (hd (dropWhile isspace s))" by (rule hd_dropWhile)
    moreover have "hd (dropWhile isspace s) \<in> set (dropWhile isspace s)" using n by simp
    ultimately show False using a by blast
  qed
  then show "list_all isspace s" by (simp add: dropWhile_eq_Nil_conv list_all_iff)
qed (rule strip_blank)

lemma contains_length: "contains s k \<Longrightarrow> length k \<le> length s"
  by (auto simp: contains_iff)



section \<open>The extractor: what a returned record says\<close>

lemma bind_exn_Inr: "bind_exn m f = Inr y \<longleftrightarrow> (\<exists>x. m = Inr x \<and> f x = Inr y)"
  by (cases m) (auto simp: bind_exn_def)

lemma extract_Inr:
  assumes "extract_paper_info pd = Inr p"
    and "dict_get pd (asc ''translation'') (JStr []) = Inr (JStr tr)"
  shows "\<exists>t s. (case (case re_search title_pattern tr of
                         None \<Rightarrow> re_search fallback_pattern tr | Some m \<Rightarrow> Some m) of
                  Some m \<Rightarrow> group1_str m
                | None \<Rightarrow> bind_exn (dict_get pd (asc ''title'') (JStr [])) strip_receiver) = Inr t \<and>
               title p = strip t \<and>
               (case re_search summary_pattern tr of
                  Some m \<Rightarrow> group1_str m | None \<Rightarrow> Inr []) = Inr s \<and>
               (if strip s = [] \<and> contains tr summary_marker
                then map_sum id strip (item1 (split1 summary_marker tr))
                else Inr (strip s)) = Inr (summary p)"
proof -
  from assms obtain t s st where
    a: "(case (case re_search title_pattern tr of
                         None \<Rightarrow> re_search fallback_pattern tr | Some m \<Rightarrow> Some m) of
                  Some m \<Rightarrow> group1_str m
                | None \<Rightarrow> bind_exn (dict_get pd (asc ''title'') (JStr [])) strip_receiver) = Inr t"
    and b: "(case re_search summary_pattern tr of
                  Some m \<Rightarrow> group1_str m | None \<Rightarrow> Inr []) = Inr s"
    and c: "(if strip s = [] \<and> contains tr summary_marker
                then map_sum id strip (item1 (split1 summary_marker tr))
                else Inr (strip s)) = Inr st"
    and d: "title p = strip t" "summary p = st"
    unfolding extract_paper_info_def bind_exn_Inr Let_def by fastforce
  then show ?thesis by blast
qed



section \<open>Lookaheads and sequences\<close>

lemma ms_nogroup:
  "nogroup r \<Longrightarrow> (b', s', g') \<in> set (ms r (b, s, g)) \<Longrightarrow> g' = g"
proof (induction r arbitrary: b s g b' s' g')
  case (Seq r1 r2)
  from Seq.prems(2) obtain m1 where m1: "m1 \<in> set (ms r1 (b, s, g))" "(b', s', g') \<in> set (ms r2 m1)"
    by auto
  obtain b1 s1 g1 where m1e: "m1 = (b1, s1, g1)" by (cases m1)
  from Seq.IH(1) [of b1 s1 g1 b s g] m1(1) m1e Seq.prems(1) have "g1 = g" by simp
  moreover from Seq.IH(2) [of b' s' g' b1 s1 g1] m1(2) m1e Seq.prems(1) have "g' = g1" by simp
  ultimately show ?case by simp
next
  case (Ahead r)
  show ?case
  proof (cases "ms r (b, s, g)")
    case Nil
    with Ahead.prems(2) show ?thesis by simp
  next
    case (Cons m1 l)
    obtain b1 s1 g1 where m1: "m1 = (b1, s1, g1)" by (cases m1)
    with Cons Ahead.prems(2) have "g' = g1" by simp
    moreover have "(b1, s1, g1) \<in> set (ms r (b, s, g))" using Cons m1 by simp
    from Ahead.IH [OF _ this] Ahead.prems(1) have "g1 = g" by simp
    ultimately show ?thesis by simp
  qed
qed (auto split: list.splits if_splits)

lemma in_ms_Ahead_iff:
  assumes "nogroup r"
  shows "m \<in> set (ms (Ahead r) (b, s, g)) \<longleftrightarrow> ms r (b, s, g) \<noteq> [] \<and> m = (b, s, g)"
proof (cases "ms r (b, s, g)")
  case Nil
  then show ?thesis by simp
next
  case (Cons m1 l)
  obtain b1 s1 g1 where m1: "m1 = (b1, s1, g1)" by (cases m1)
  with Cons have "(b1, s1, g1) \<in> set (ms r (b, s, g))" by simp
  from ms_nogroup [OF assms this] have "g1 = g" .
  with Cons m1 show ?thesis by auto
qed

lemma in_ms_Seq':
  "m \<in> set (ms (Seq r1 r2) st) \<longleftrightarrow>
     (\<exists>b1 s1 g1. (b1, s1, g1) \<in> set (ms r1 st) \<and> m \<in> set (ms r2 (b1, s1, g1)))"
  by auto

lemma split_before:
  "u @ r = a @ x # t \<Longrightarrow> list_all Q u \<Longrightarrow> \<not> Q x \<Longrightarrow> \<exists>a2. a = u @ a2 \<and> r = a2 @ x # t"
proof (induction u arbitrary: a)
  case Nil
  then show ?case by simp
next
  case (Cons y u)
  show ?case
  proof (cases a)
    case Nil
    with Cons.prems show ?thesis by auto
  next
    case (Cons a0 a')
    with Cons.prems have "u @ r = a' @ x # t" "list_all Q u" "a0 = y" by auto
    from Cons.IH [OF this(1,2) Cons.prems(3)] obtain a2 where "a' = u @ a2" "r = a2 @ x # t"
      by (elim exE conjE)
    with Cons \<open>a0 = y\<close> show ?thesis by simp
  qed
qed

lemma in_cls_Space: "in_cls Space = isspace"
  by (rule ext) simp

lemma concat_map_concat:
  "concat (map f (concat (map h xs))) = concat (map (\<lambda>x. concat (map f (h x))) xs)"
  by (induction xs) auto

lemma ms_Seq_assoc: "ms (Seq (Seq r1 r2) r3) st = ms (Seq r1 (Seq r2 r3)) st"
proof -
  have "ms (Seq r2 r3) = (\<lambda>x. concat (map (ms r3) (ms r2 x)))" by (rule ext) simp
  then show ?thesis by (simp add: concat_map_concat)
qed

lemma Seq_ChrE:
  assumes "m \<in> set (ms (Seq (Chr k) r) (b, s, g))"
  obtains c cs where "s = c # cs" "in_cls k c" "m \<in> set (ms r (c = 10, cs, g))"
  using assms that by (cases s) (auto split: if_splits)

lemma Seq_ChrI:
  "in_cls k c \<Longrightarrow> m \<in> set (ms r (c = 10, cs, g)) \<Longrightarrow> m \<in> set (ms (Seq (Chr k) r) (b, c # cs, g))"
  by simp

lemma Seq_StarE:
  assumes "m \<in> set (ms (Seq (Star k) r) (b, s, g))"
  obtains u s1 where "s = u @ s1" "list_all (in_cls k) u" "m \<in> set (ms r (bol_after b u, s1, g))"
proof -
  from assms obtain b1 s1 g1 where 1: "(b1, s1, g1) \<in> set (ms (Star k) (b, s, g))"
    and 2: "m \<in> set (ms r (b1, s1, g1))" unfolding in_ms_Seq' by (elim exE conjE)
  from 1 obtain u s' where "s = u @ s'" "list_all (in_cls k) u" "(b1, s1, g1) = (bol_after b u, s', g)"
    unfolding in_ms_Star by (elim exE conjE)
  with 2 that [of u s1] show ?thesis by simp
qed

lemma Seq_StarI:
  assumes "list_all (in_cls k) u" and "m \<in> set (ms r (bol_after b u, s1, g))"
  shows "m \<in> set (ms (Seq (Star k) r) (b, u @ s1, g))"
proof -
  have "(bol_after b u, s1, g) \<in> set (ms (Star k) (b, u @ s1, g))"
    unfolding in_ms_Star using assms(1) by (intro exI conjI) (rule refl, assumption, rule refl)
  with assms(2) show ?thesis unfolding in_ms_Seq' by (intro exI conjI)
qed

lemma Seq_GroupE:
  assumes "m \<in> set (ms (Seq (Group r0) r) (b, s, g))"
  obtains b1 s1 g1 where "(b1, s1, g1) \<in> set (ms r0 (b, s, g))"
    "m \<in> set (ms r (b1, s1, Some (take (length s - length s1) s)))"
proof -
  from assms obtain b2 s2 g2 where 1: "(b2, s2, g2) \<in> set (ms (Group r0) (b, s, g))"
    and 2: "m \<in> set (ms r (b2, s2, g2))" unfolding in_ms_Seq' by (elim exE conjE)
  from 1 obtain b' s' g' where "(b', s', g') \<in> set (ms r0 (b, s, g))"
    "(b2, s2, g2) = (b', s', Some (take (length s - length s') s))"
    unfolding in_ms_Group by (elim exE conjE)
  with 2 that [of b2 s2 g'] show ?thesis by simp
qed

lemma Seq_GroupI:
  assumes "(b1, s1, g1) \<in> set (ms r0 (b, s, g))"
    and "m \<in> set (ms r (b1, s1, Some (take (length s - length s1) s)))"
  shows "m \<in> set (ms (Seq (Group r0) r) (b, s, g))"
proof -
  have "(b1, s1, Some (take (length s - length s1) s)) \<in> set (ms (Group r0) (b, s, g))"
    unfolding in_ms_Group using assms(1) by (intro exI conjI) (assumption, rule refl)
  with assms(2) show ?thesis unfolding in_ms_Seq' by (intro exI conjI)
qed

lemma PlusE:
  assumes "(b', s', g') \<in> set (ms (Plus k) (b, s, g))"
  obtains u where "s = u @ s'" "u \<noteq> []" "list_all (in_cls k) u" "g' = g" "b' = bol_after b u"
proof -
  from assms obtain u s1 where "u \<noteq> []" "s = u @ s1" "list_all (in_cls k) u"
    "(b', s', g') = (bol_after b u, s1, g)" unfolding in_ms_Plus by (elim exE conjE)
  with that [of u] show ?thesis by simp
qed

lemma PlusI:
  assumes "u \<noteq> []" and "list_all (in_cls k) u"
  shows "(bol_after b u, s', g) \<in> set (ms (Plus k) (b, u @ s', g))"
  unfolding in_ms_Plus using assms by (intro exI conjI) (assumption, rule refl, assumption, rule refl)

lemma LazyPlusE:
  assumes "(b', s', g') \<in> set (ms (LazyPlus k) (b, s, g))"
  obtains u where "s = u @ s'" "u \<noteq> []" "list_all (in_cls k) u" "g' = g" "b' = bol_after b u"
proof -
  from assms obtain u s1 where "u \<noteq> []" "s = u @ s1" "list_all (in_cls k) u"
    "(b', s', g') = (bol_after b u, s1, g)" unfolding in_ms_LazyPlus by (elim exE conjE)
  with that [of u] show ?thesis by simp
qed

lemma LazyPlusI:
  assumes "u \<noteq> []" and "list_all (in_cls k) u"
  shows "(bol_after b u, s', g) \<in> set (ms (LazyPlus k) (b, u @ s', g))"
  unfolding in_ms_LazyPlus using assms by (intro exI conjI) (assumption, rule refl, assumption, rule refl)

lemma ChrE:
  assumes "(b', s', g') \<in> set (ms (Chr k) (b, s, g))"
  obtains c where "s = c # s'" "in_cls k c" "g' = g" "b' = (c = 10)"
  using assms that by (cases s) (auto split: if_splits)

lemma AheadE:
  assumes "(b', s', g') \<in> set (ms (Ahead r) (b, s, g))" and "nogroup r"
  obtains "ms r (b, s, g) \<noteq> []" "b' = b" "s' = s" "g' = g"
  using assms that unfolding in_ms_Ahead_iff [OF assms(2)] by simp

lemma AheadI:
  assumes "ms r (b, s, g) \<noteq> []" and "nogroup r"
  shows "(b, s, g) \<in> set (ms (Ahead r) (b, s, g))"
  unfolding in_ms_Ahead_iff [OF assms(2)] using assms(1) by simp

section \<open>The title pattern\<close>

declare ms.simps [simp del]

lemma look_titleI:
  "s = v @ 10 # v' @ 25688 # 35201 # c # rest \<Longrightarrow> list_all isspace v \<Longrightarrow>
   list_all isspace v' \<Longrightarrow> c \<in> set colons \<Longrightarrow> look_title s"
  unfolding look_title_def by (intro disjI2 exI conjI)

lemma nogroup_title_ahead: "nogroup title_ahead"
  by (simp add: title_ahead_def lit_def summary_label_def)

lemma ms_Alt: "ms (Alt r1 r2) st = ms r1 st @ ms r2 st"
  by (simp add: ms.simps)

lemma ms_title_ahead:
  "ms title_ahead st =
     ms (Seq (Star Space) (Seq (Chr (Lit 10)) (Seq (Star Space)
          (Seq (Seq (Chr (Lit 25688)) (Chr (Lit 35201))) (Chr (OneOf colons)))))) st @
     ms EndZ st"
  by (simp add: title_ahead_def lit_def summary_label_def ms_Alt)

lemma title_ahead_look:
  assumes "ms title_ahead (b, s, g) \<noteq> []"
  shows "look_title s"
proof -
  from assms obtain m where "m \<in> set (ms title_ahead (b, s, g))" by (auto simp: nonempty_iff)
  then have "m \<in> set (ms (Seq (Star Space) (Seq (Chr (Lit 10)) (Seq (Star Space)
          (Seq (Seq (Chr (Lit 25688)) (Chr (Lit 35201))) (Chr (OneOf colons)))))) (b, s, g)) \<or>
      m \<in> set (ms EndZ (b, s, g))"
    unfolding ms_title_ahead set_append Un_iff .
  then consider
      (A) "m \<in> set (ms (Seq (Star Space) (Seq (Chr (Lit 10)) (Seq (Star Space)
          (Seq (Seq (Chr (Lit 25688)) (Chr (Lit 35201))) (Chr (OneOf colons)))))) (b, s, g))"
    | (Z) "m \<in> set (ms EndZ (b, s, g))"
    by (elim disjE)
  then show ?thesis
  proof cases
    case Z
    then show ?thesis by (simp add: look_title_def in_ms_EndZ)
  next
    case A
    from A obtain v s1 where 1: "s = v @ s1" "list_all (in_cls Space) v"
      and m1: "m \<in> set (ms (Seq (Chr (Lit 10)) (Seq (Star Space)
          (Seq (Seq (Chr (Lit 25688)) (Chr (Lit 35201))) (Chr (OneOf colons))))) (bol_after b v, s1, g))"
      by (rule Seq_StarE)
    from m1 obtain c1 s2 where 2: "s1 = c1 # s2" "in_cls (Lit 10) c1"
      and m2: "m \<in> set (ms (Seq (Star Space)
          (Seq (Seq (Chr (Lit 25688)) (Chr (Lit 35201))) (Chr (OneOf colons)))) (c1 = 10, s2, g))"
      by (rule Seq_ChrE)
    from m2 obtain v' s3 where 3: "s2 = v' @ s3" "list_all (in_cls Space) v'"
      and m3: "m \<in> set (ms (Seq (Seq (Chr (Lit 25688)) (Chr (Lit 35201))) (Chr (OneOf colons)))
                 (bol_after (c1 = 10) v', s3, g))"
      by (rule Seq_StarE)
    from m3 obtain c2 s4 where 4: "s3 = c2 # s4" "in_cls (Lit 25688) c2"
      and m4: "m \<in> set (ms (Seq (Chr (Lit 35201)) (Chr (OneOf colons))) (c2 = 10, s4, g))"
      unfolding ms_Seq_assoc by (rule Seq_ChrE)
    from m4 obtain c3 s5 where 5: "s4 = c3 # s5" "in_cls (Lit 35201) c3"
      and m5: "m \<in> set (ms (Chr (OneOf colons)) (c3 = 10, s5, g))"
      by (rule Seq_ChrE)
    obtain b' s' g' where m: "m = (b', s', g')" by (cases m)
    from m5 [unfolded m] obtain c where 6: "s5 = c # s'" "in_cls (OneOf colons) c"
      by (rule ChrE)
    have "s = v @ 10 # v' @ 25688 # 35201 # c # s'"
      using 1(1) 2 3(1) 4 5 6(1) by simp
    moreover have "list_all isspace v" "list_all isspace v'" "c \<in> set colons"
      using 1(2) 3(2) 6(2) by (simp_all add: in_cls_Space)
    ultimately show ?thesis by (rule look_titleI)
  qed
qed

lemma look_title_ahead:
  assumes "look_title s"
  shows "ms title_ahead (b, s, g) \<noteq> []"
proof (cases "s = []")
  case True
  then show ?thesis by (simp add: ms_title_ahead ms.simps)
next
  case False
  with assms obtain v v' c rest where s: "s = v @ 10 # v' @ 25688 # 35201 # c # rest"
    and v: "list_all isspace v" "list_all isspace v'" and c: "c \<in> set colons"
    unfolding look_title_def by (elim disjE exE conjE) simp_all
  have f1: "(c = 10, rest, g) \<in> set (ms (Chr (OneOf colons)) (False, c # rest, g))"
    using c by (simp add: ms.simps)
  have f2: "(c = 10, rest, g) \<in>
      set (ms (Seq (Chr (Lit 35201)) (Chr (OneOf colons))) (False, 35201 # c # rest, g))"
    by (rule Seq_ChrI) (use f1 in simp_all)
  have f3: "(c = 10, rest, g) \<in>
      set (ms (Seq (Chr (Lit 25688)) (Seq (Chr (Lit 35201)) (Chr (OneOf colons))))
             (bol_after True v', 25688 # 35201 # c # rest, g))"
    by (rule Seq_ChrI) (use f2 in simp_all)
  then have f4: "(c = 10, rest, g) \<in>
      set (ms (Seq (Seq (Chr (Lit 25688)) (Chr (Lit 35201))) (Chr (OneOf colons)))
             (bol_after True v', 25688 # 35201 # c # rest, g))"
    by (simp only: ms_Seq_assoc)
  have f5: "(c = 10, rest, g) \<in>
      set (ms (Seq (Star Space) (Seq (Seq (Chr (Lit 25688)) (Chr (Lit 35201))) (Chr (OneOf colons))))
             (True, v' @ 25688 # 35201 # c # rest, g))"
    by (rule Seq_StarI) (use v(2) f4 in \<open>simp_all add: in_cls_Space\<close>)
  have f6: "(c = 10, rest, g) \<in>
      set (ms (Seq (Chr (Lit 10)) (Seq (Star Space)
          (Seq (Seq (Chr (Lit 25688)) (Chr (Lit 35201))) (Chr (OneOf colons)))))
             (bol_after b v, 10 # v' @ 25688 # 35201 # c # rest, g))"
    by (rule Seq_ChrI) (use f5 in simp_all)
  have f7: "(c = 10, rest, g) \<in>
      set (ms (Seq (Star Space) (Seq (Chr (Lit 10)) (Seq (Star Space)
          (Seq (Seq (Chr (Lit 25688)) (Chr (Lit 35201))) (Chr (OneOf colons))))))
             (b, v @ 10 # v' @ 25688 # 35201 # c # rest, g))"
    by (rule Seq_StarI) (use v(1) f6 in \<open>simp_all add: in_cls_Space\<close>)
  then show ?thesis unfolding ms_title_ahead s by auto
qed

lemma list_all_not_nl: "list_all (in_cls (NoneOf [10])) G \<longleftrightarrow> 10 \<notin> set G"
  by (induction G) auto

lemma ms_title_pattern:
  "ms title_pattern st =
     ms (Seq (Chr (Lit 26631)) (Seq (Chr (Lit 39064)) (Seq (Chr (OneOf colons))
          (Seq (Star Space) (Seq (Group (Plus (NoneOf [10]))) (Ahead title_ahead)))))) st"
  by (simp add: title_pattern_def title_ahead_def lit_def title_label_def ms_Seq_assoc)

lemma title_shape:
  assumes "(b', s', g') \<in> set (ms title_pattern (b, s, g))"
  obtains c u G where "s = 26631 # 39064 # c # u @ G @ s'" "c \<in> set colons"
    "list_all isspace u" "G \<noteq> []" "10 \<notin> set G" "g' = Some G" "look_title s'"
proof -
  from assms [unfolded ms_title_pattern] obtain c1 s1 where 1: "s = c1 # s1" "in_cls (Lit 26631) c1"
    and m1: "(b', s', g') \<in> set (ms (Seq (Chr (Lit 39064)) (Seq (Chr (OneOf colons))
          (Seq (Star Space) (Seq (Group (Plus (NoneOf [10]))) (Ahead title_ahead)))))
          (c1 = 10, s1, g))"
    by (rule Seq_ChrE)
  from m1 obtain c2 s2 where 2: "s1 = c2 # s2" "in_cls (Lit 39064) c2"
    and m2: "(b', s', g') \<in> set (ms (Seq (Chr (OneOf colons))
          (Seq (Star Space) (Seq (Group (Plus (NoneOf [10]))) (Ahead title_ahead))))
          (c2 = 10, s2, g))"
    by (rule Seq_ChrE)
  from m2 obtain c s3 where 3: "s2 = c # s3" "in_cls (OneOf colons) c"
    and m3: "(b', s', g') \<in> set (ms (Seq (Star Space)
          (Seq (Group (Plus (NoneOf [10]))) (Ahead title_ahead))) (c = 10, s3, g))"
    by (rule Seq_ChrE)
  from m3 obtain u s4 where 4: "s3 = u @ s4" "list_all (in_cls Space) u"
    and m4: "(b', s', g') \<in> set (ms (Seq (Group (Plus (NoneOf [10]))) (Ahead title_ahead))
          (bol_after (c = 10) u, s4, g))"
    by (rule Seq_StarE)
  from m4 obtain b5 s5 g5 where
    m5: "(b5, s5, g5) \<in> set (ms (Plus (NoneOf [10])) (bol_after (c = 10) u, s4, g))"
    and m6: "(b', s', g') \<in> set (ms (Ahead title_ahead)
          (b5, s5, Some (take (length s4 - length s5) s4)))"
    by (rule Seq_GroupE)
  from m5 obtain G where 5: "s4 = G @ s5" "G \<noteq> []" "list_all (in_cls (NoneOf [10])) G"
    by (rule PlusE)
  from m6 nogroup_title_ahead have 6: "ms title_ahead (b5, s5, Some (take (length s4 - length s5) s4)) \<noteq> []"
    "s' = s5" "g' = Some (take (length s4 - length s5) s4)"
    by (auto elim: AheadE)
  have "s = 26631 # 39064 # c # u @ G @ s'" using 1 2 3(1) 4(1) 5(1) 6(2) by simp
  moreover have "c \<in> set colons" using 3(2) by simp
  moreover have "list_all isspace u" using 4(2) by (simp add: in_cls_Space)
  moreover have "10 \<notin> set G" using 5(3) by (simp add: list_all_not_nl)
  moreover have "g' = Some G" using 6(3) 5(1) by simp
  moreover have "look_title s'" using 6(1,2) title_ahead_look by blast
  ultimately show ?thesis using 5(2) that by blast
qed

lemma title_intro:
  assumes "c \<in> set colons" "list_all isspace u" "G \<noteq> []" "10 \<notin> set G" "look_title s2"
  shows "(bol_after (bol_after (c = 10) u) G, s2, Some G) \<in>
           set (ms title_pattern (b, 26631 # 39064 # c # u @ G @ s2, g))"
proof -
  let ?b1 = "bol_after (c = 10) u" and ?b2 = "bol_after (bol_after (c = 10) u) G"
  have f1: "(?b2, s2, Some G) \<in> set (ms (Ahead title_ahead) (?b2, s2, Some G))"
    by (rule AheadI) (use assms(5) look_title_ahead nogroup_title_ahead in simp_all)
  have f2: "(?b2, s2, g) \<in> set (ms (Plus (NoneOf [10])) (?b1, G @ s2, g))"
    by (rule PlusI) (use assms(3,4) in \<open>simp_all add: list_all_not_nl\<close>)
  have f3: "(?b2, s2, Some G) \<in> set (ms (Seq (Group (Plus (NoneOf [10]))) (Ahead title_ahead))
      (?b1, G @ s2, g))"
    by (rule Seq_GroupI [OF f2]) (use f1 in simp)
  have f4: "(?b2, s2, Some G) \<in> set (ms (Seq (Star Space)
       (Seq (Group (Plus (NoneOf [10]))) (Ahead title_ahead))) (c = 10, u @ G @ s2, g))"
    by (rule Seq_StarI) (use assms(2) f3 in \<open>simp_all add: in_cls_Space\<close>)
  have f5: "(?b2, s2, Some G) \<in> set (ms (Seq (Chr (OneOf colons)) (Seq (Star Space)
       (Seq (Group (Plus (NoneOf [10]))) (Ahead title_ahead)))) (False, c # u @ G @ s2, g))"
    by (rule Seq_ChrI) (use assms(1) f4 in simp_all)
  have f6: "(?b2, s2, Some G) \<in> set (ms (Seq (Chr (Lit 39064)) (Seq (Chr (OneOf colons)) (Seq (Star Space)
       (Seq (Group (Plus (NoneOf [10]))) (Ahead title_ahead))))) (False, 39064 # c # u @ G @ s2, g))"
    by (rule Seq_ChrI) (use f5 in simp_all)
  show ?thesis unfolding ms_title_pattern
    by (rule Seq_ChrI) (use f6 in simp_all)
qed

section \<open>The summary pattern\<close>

lemma nogroup_summary_ahead: "nogroup summary_ahead"
  by (simp add: summary_ahead_def)

lemma ms_summary_pattern:
  "ms summary_pattern st =
     ms (Seq (Chr (Lit 25688)) (Seq (Chr (Lit 35201)) (Seq (Chr (OneOf colons))
          (Seq (Star Space) (Seq (Group (Seq (Chr (NoneOf [10])) (LazyPlus AnyChar)))
             (Ahead summary_ahead)))))) st"
  by (simp add: summary_pattern_def summary_ahead_def lit_def summary_label_def ms_Seq_assoc)

lemma summary_ahead_no_nl:
  assumes "ms summary_ahead (b, s, g) \<noteq> []" and "10 \<notin> set s"
  shows "list_all isspace s"
proof -
  from assms(1) obtain m where "m \<in> set (ms summary_ahead (b, s, g))" by (auto simp: nonempty_iff)
  then obtain v s1 where 1: "s = v @ s1" "list_all (in_cls Space) v"
    and m1: "m \<in> set (ms (Alt (cat [Chr (Lit 10), Star Space, Plus (NoneOf [65306, 10]),
                 Chr (OneOf colons)]) EndZ) (bol_after b v, s1, g))"
    unfolding summary_ahead_def by (rule Seq_StarE)
  from m1 have "m \<in> set (ms (Seq (Chr (Lit 10)) (cat [Star Space, Plus (NoneOf [65306, 10]),
                 Chr (OneOf colons)])) (bol_after b v, s1, g)) \<or>
      m \<in> set (ms EndZ (bol_after b v, s1, g))"
    unfolding ms_Alt set_append Un_iff by simp
  then have "s1 = []"
  proof (elim disjE)
    assume "m \<in> set (ms (Seq (Chr (Lit 10)) (cat [Star Space, Plus (NoneOf [65306, 10]),
                 Chr (OneOf colons)])) (bol_after b v, s1, g))"
    then obtain c cs where "s1 = c # cs" "in_cls (Lit 10) c" by (rule Seq_ChrE)
    with 1(1) assms(2) show ?thesis by simp
  next
    assume "m \<in> set (ms EndZ (bol_after b v, s1, g))"
    then show ?thesis by (simp add: in_ms_EndZ)
  qed
  with 1 show ?thesis by (simp add: in_cls_Space)
qed

lemma summary_ahead_end: "ms summary_ahead (b, [], g) \<noteq> []"
  by (simp add: summary_ahead_def ms.simps)

lemma summary_shape:
  assumes "(b', s', g') \<in> set (ms summary_pattern (b, s, g))"
  obtains c u G bb gg where "s = 25688 # 35201 # c # u @ G @ s'" "c \<in> set colons"
    "list_all isspace u" "2 \<le> length G" "hd G \<noteq> 10" "g' = Some G"
    "ms summary_ahead (bb, s', gg) \<noteq> []"
proof -
  from assms [unfolded ms_summary_pattern] obtain c1 s1 where 1: "s = c1 # s1" "in_cls (Lit 25688) c1"
    and m1: "(b', s', g') \<in> set (ms (Seq (Chr (Lit 35201)) (Seq (Chr (OneOf colons))
          (Seq (Star Space) (Seq (Group (Seq (Chr (NoneOf [10])) (LazyPlus AnyChar)))
             (Ahead summary_ahead))))) (c1 = 10, s1, g))"
    by (rule Seq_ChrE)
  from m1 obtain c2 s2 where 2: "s1 = c2 # s2" "in_cls (Lit 35201) c2"
    and m2: "(b', s', g') \<in> set (ms (Seq (Chr (OneOf colons))
          (Seq (Star Space) (Seq (Group (Seq (Chr (NoneOf [10])) (LazyPlus AnyChar)))
             (Ahead summary_ahead)))) (c2 = 10, s2, g))"
    by (rule Seq_ChrE)
  from m2 obtain c s3 where 3: "s2 = c # s3" "in_cls (OneOf colons) c"
    and m3: "(b', s', g') \<in> set (ms (Seq (Star Space)
          (Seq (Group (Seq (Chr (NoneOf [10])) (LazyPlus AnyChar))) (Ahead summary_ahead)))
          (c = 10, s3, g))"
    by (rule Seq_ChrE)
  from m3 obtain u s4 where 4: "s3 = u @ s4" "list_all (in_cls Space) u"
    and m4: "(b', s', g') \<in> set (ms (Seq (Group (Seq (Chr (NoneOf [10])) (LazyPlus AnyChar)))
          (Ahead summary_ahead)) (bol_after (c = 10) u, s4, g))"
    by (rule Seq_StarE)
  from m4 obtain b5 s5 g5 where
    m5: "(b5, s5, g5) \<in> set (ms (Seq (Chr (NoneOf [10])) (LazyPlus AnyChar))
            (bol_after (c = 10) u, s4, g))"
    and m6: "(b', s', g') \<in> set (ms (Ahead summary_ahead)
          (b5, s5, Some (take (length s4 - length s5) s4)))"
    by (rule Seq_GroupE)
  from m5 obtain x s6 where 5: "s4 = x # s6" "in_cls (NoneOf [10]) x"
    and m7: "(b5, s5, g5) \<in> set (ms (LazyPlus AnyChar) (x = 10, s6, g))"
    by (rule Seq_ChrE)
  from m7 obtain w where 6: "s6 = w @ s5" "w \<noteq> []" by (rule LazyPlusE)
  from m6 nogroup_summary_ahead have 7:
    "ms summary_ahead (b5, s5, Some (take (length s4 - length s5) s4)) \<noteq> []"
    "s' = s5" "g' = Some (take (length s4 - length s5) s4)"
    by (auto elim: AheadE)
  have "s = 25688 # 35201 # c # u @ (x # w) @ s'" using 1 2 3(1) 4(1) 5(1) 6(1) 7(2) by simp
  moreover have "c \<in> set colons" using 3(2) by simp
  moreover have "list_all isspace u" using 4(2) by (simp add: in_cls_Space)
  moreover have "2 \<le> length (x # w)" using 6(2) by (cases w) simp_all
  moreover have "hd (x # w) \<noteq> 10" using 5(2) by simp
  moreover have "g' = Some (x # w)" using 7(3) 5(1) 6(1) by simp
  moreover have "ms summary_ahead (b5, s', Some (take (length s4 - length s5) s4)) \<noteq> []"
    using 7(1,2) by simp
  ultimately show ?thesis by (rule that)
qed

lemma summary_intro:
  assumes "c \<in> set colons" "x \<noteq> 10" "w \<noteq> []"
  shows "(bol_after (x = 10) w, [], Some (x # w)) \<in>
           set (ms summary_pattern (b, 25688 # 35201 # c # x # w, g))"
proof -
  let ?b = "bol_after (x = 10) w"
  have f1: "(?b, [], Some (x # w)) \<in> set (ms (Ahead summary_ahead) (?b, [], Some (x # w)))"
    by (rule AheadI) (use summary_ahead_end nogroup_summary_ahead in simp_all)
  have f2: "(?b, [], g) \<in> set (ms (LazyPlus AnyChar) (x = 10, w @ [], g))"
    by (rule LazyPlusI) (use assms(3) in \<open>simp_all add: list_all_iff\<close>)
  have f3: "(?b, [], g) \<in> set (ms (Seq (Chr (NoneOf [10])) (LazyPlus AnyChar)) (c = 10, x # w, g))"
    by (rule Seq_ChrI) (use assms(2) f2 in simp_all)
  have f4: "(?b, [], Some (x # w)) \<in>
      set (ms (Seq (Group (Seq (Chr (NoneOf [10])) (LazyPlus AnyChar))) (Ahead summary_ahead))
             (c = 10, x # w, g))"
    by (rule Seq_GroupI [OF f3]) (use f1 in simp)
  have "(?b, [], Some (x # w)) \<in>
      set (ms (Seq (Star Space) (Seq (Group (Seq (Chr (NoneOf [10])) (LazyPlus AnyChar)))
             (Ahead summary_ahead))) (c = 10, [] @ x # w, g))"
    by (rule Seq_StarI) (use f4 in \<open>simp_all add: bol_after_def\<close>)
  then have f5: "(?b, [], Some (x # w)) \<in>
      set (ms (Seq (Star Space) (Seq (Group (Seq (Chr (NoneOf [10])) (LazyPlus AnyChar)))
             (Ahead summary_ahead))) (c = 10, x # w, g))"
    by simp
  have f6: "(?b, [], Some (x # w)) \<in> set (ms (Seq (Chr (OneOf colons)) (Seq (Star Space)
       (Seq (Group (Seq (Chr (NoneOf [10])) (LazyPlus AnyChar))) (Ahead summary_ahead))))
       (False, c # x # w, g))"
    by (rule Seq_ChrI) (use assms(1) f5 in simp_all)
  have f7: "(?b, [], Some (x # w)) \<in> set (ms (Seq (Chr (Lit 35201)) (Seq (Chr (OneOf colons))
       (Seq (Star Space) (Seq (Group (Seq (Chr (NoneOf [10])) (LazyPlus AnyChar)))
          (Ahead summary_ahead))))) (False, 35201 # c # x # w, g))"
    by (rule Seq_ChrI) (use f6 in simp_all)
  show ?thesis unfolding ms_summary_pattern
    by (rule Seq_ChrI) (use f7 in simp_all)
qed

section \<open>The second title pattern\<close>








section \<open>Lines\<close>
















section \<open>The title tiers\<close>








section \<open>The title line and summary line layout\<close>

lemma nonblank_split:
  assumes "\<not> list_all isspace X"
  obtains w x0 X1 where "X = w @ x0 # X1" "list_all isspace w" "\<not> isspace x0"
proof -
  have d: "dropWhile isspace X \<noteq> []" using assms by (simp add: list_all_iff)
  then obtain x0 X1 where x: "dropWhile isspace X = x0 # X1" by (cases "dropWhile isspace X") auto
  have "\<not> isspace x0" using hd_dropWhile [OF d] x by simp
  moreover have "X = takeWhile isspace X @ x0 # X1"
    using takeWhile_dropWhile_id [of isspace X] x by simp
  moreover have "list_all isspace (takeWhile isspace X)"
    by (simp add: list_all_iff) (meson set_takeWhileD)
  ultimately show ?thesis using that by blast
qed

lemma layout_title:
  assumes "10 \<notin> set X" and "\<not> list_all isspace X" and "c1 \<in> set colons" and "c2 \<in> set colons"
  shows "\<exists>m G. re_search title_pattern (26631 # 39064 # c1 # X @ 10 # 25688 # 35201 # c2 # Y) = Some m \<and>
           group1 m = Some G \<and> strip G = strip X"
proof -
  let ?T = "25688 # 35201 # c2 # Y"
  let ?tr = "26631 # 39064 # c1 # X @ 10 # ?T"
  from assms(2) obtain w x0 X1 where X: "X = w @ x0 # X1" "list_all isspace w" "\<not> isspace x0"
    by (rule nonblank_split)
  have lt: "look_title (10 # ?T)"
    by (rule look_titleI [of _ "[]" "[]" c2 Y]) (use assms(4) in simp_all)
  have G0: "x0 # X1 \<noteq> []" "10 \<notin> set (x0 # X1)" using X(1) assms(1) by simp_all
  from title_intro [OF assms(3) X(2) G0 lt, of True None]
  have "ms title_pattern (True, ?tr, None) \<noteq> []" using X(1) by auto
  from search_from_first [OF this] obtain m where
    m: "re_search title_pattern ?tr = Some m" "m \<in> set (ms title_pattern (True, ?tr, None))"
    unfolding re_search_def by (elim exE conjE)
  obtain b' s' g' where me: "m = (b', s', g')" by (cases m)
  from m(2) [unfolded me] obtain c u G where
    s: "?tr = 26631 # 39064 # c # u @ G @ s'" "list_all isspace u"
      "G \<noteq> []" "10 \<notin> set G" "g' = Some G" "look_title s'"
    by (rule title_shape)
  from s(1) X(1) have e1: "u @ (G @ s') = w @ x0 # (X1 @ 10 # ?T)" by simp
  from split_before [OF e1 s(2) X(3)] obtain a2 where
    a2: "w = u @ a2" "G @ s' = a2 @ x0 # X1 @ 10 # ?T" by (elim exE conjE)
  have e2: "G @ s' = (a2 @ x0 # X1) @ 10 # ?T" using a2(2) by simp
  have "list_all (\<lambda>x. x \<noteq> 10) G" using s(4) by (auto simp: list_all_iff)
  from split_before [OF e2 this] obtain a3 where
    a3: "a2 @ x0 # X1 = G @ a3" "s' = a3 @ 10 # ?T" by auto
  have Xe: "X = u @ G @ a3" using X(1) a2(1) a3(1) by simp
  have "s' \<noteq> []" using a3(2) by simp
  with s(6) obtain v v' c' rest where
    v: "s' = v @ 10 # v' @ 25688 # 35201 # c' # rest" "list_all isspace v"
    unfolding look_title_def by (elim disjE exE conjE) simp_all
  have e3: "a3 @ (10 # ?T) = v @ 10 # (v' @ 25688 # 35201 # c' # rest)" using a3(2) v(1) by simp
  have "list_all (\<lambda>x. x \<noteq> 10) a3" using Xe assms(1) by (auto simp: list_all_iff)
  from split_before [OF e3 this] obtain a4 where "v = a3 @ a4" by auto
  with v(2) have "list_all isspace a3" by simp
  from strip_ws [OF s(2) this, of G] Xe have sg: "strip G = strip X" by simp
  show ?thesis
  proof (intro exI conjI)
    show "re_search title_pattern ?tr = Some m" by (rule m(1))
    show "group1 m = Some G" using me s(5) by simp
    show "strip G = strip X" by (rule sg)
  qed
qed

lemma summary_starts:
  assumes "ms summary_pattern (b, s, None) \<noteq> []"
  obtains c u G s' where "s = 25688 # 35201 # c # u @ G @ s'" "c \<in> set colons" "2 \<le> length G"
proof -
  from assms obtain m where m: "m \<in> set (ms summary_pattern (b, s, None))"
    by (auto simp: nonempty_iff)
  obtain b' s' g' where "m = (b', s', g')" by (cases m)
  with m obtain c u G where "s = 25688 # 35201 # c # u @ G @ s'" "c \<in> set colons" "2 \<le> length G"
    by (auto elim: summary_shape)
  then show ?thesis by (rule that)
qed

lemma summary_at_label:
  assumes "m \<in> set (ms summary_pattern (b, 25688 # 35201 # c2 # Y, None))" and "10 \<notin> set Y"
  shows "\<exists>G. group1 m = Some G \<and> strip G = strip Y"
proof -
  obtain b' s' g' where me: "m = (b', s', g')" by (cases m)
  from assms(1) [unfolded me] obtain c u G bb gg where
    s: "25688 # 35201 # c2 # Y = 25688 # 35201 # c # u @ G @ s'" "list_all isspace u"
      "g' = Some G" "ms summary_ahead (bb, s', gg) \<noteq> []"
    by (rule summary_shape)
  from s(1) have Y: "Y = u @ G @ s'" by simp
  then have "10 \<notin> set s'" using assms(2) by simp
  from summary_ahead_no_nl [OF s(4) this] have "list_all isspace s'" .
  from strip_ws [OF s(2) this, of G] Y have "strip G = strip Y" by simp
  with me s(3) show ?thesis by simp
qed

lemma summary_exists:
  assumes "c2 \<in> set colons" and "2 \<le> length Y" and "10 \<notin> set Y"
  shows "ms summary_pattern (b, 25688 # 35201 # c2 # Y, None) \<noteq> []"
proof -
  from assms(2) obtain x w where Y: "Y = x # w" "w \<noteq> []"
    by (cases Y; cases "tl Y") auto
  with assms(3) have "x \<noteq> 10" by auto
  from summary_intro [OF assms(1) this Y(2), of b None] Y(1) show ?thesis by auto
qed

lemma summary_short:
  assumes "length Y \<le> 1"
  shows "search_from summary_pattern b (25688 # 35201 # c2 # Y) = None"
proof (rule search_from_None)
  fix i b'
  show "ms summary_pattern (b', drop i (25688 # 35201 # c2 # Y), None) = []"
  proof (rule ccontr)
    assume "ms summary_pattern (b', drop i (25688 # 35201 # c2 # Y), None) \<noteq> []"
    then obtain c u G s' where
      "drop i (25688 # 35201 # c2 # Y) = 25688 # 35201 # c # u @ G @ s'" "2 \<le> length G"
      by (rule summary_starts)
    then have "5 \<le> length (drop i (25688 # 35201 # c2 # Y))" by simp
    with assms show False by simp
  qed
qed

lemma summary_skip:
  assumes "\<forall>c \<in> set colons. \<not> contains (pre @ [25688, 35201]) [25688, 35201, c]"
  shows "search_from summary_pattern b (pre @ 25688 # 35201 # rest0) =
         search_from summary_pattern (bol_after b pre) (25688 # 35201 # rest0)"
proof (rule search_from_skip)
  fix i b' assume i: "i < length pre"
  show "ms summary_pattern (b', drop i pre @ 25688 # 35201 # rest0, None) = []"
  proof (rule ccontr)
    assume "ms summary_pattern (b', drop i pre @ 25688 # 35201 # rest0, None) \<noteq> []"
    then obtain c u G s' where
      e: "drop i pre @ 25688 # 35201 # rest0 = 25688 # 35201 # c # u @ G @ s'" and c: "c \<in> set colons"
      by (rule summary_starts)
    have c': "c \<noteq> 25688" using c by (auto simp: colons_def)
    from i obtain d0 d where d: "drop i pre = d0 # d" by (cases "drop i pre") auto
    with e have d0: "d0 = 25688" and e1: "d @ 25688 # 35201 # rest0 = 35201 # c # u @ G @ s'" by simp_all
    from e1 obtain d1 d' where d1: "d = d1 # d'" by (cases d) auto
    with e1 have d1v: "d1 = 35201" and e2: "d' @ 25688 # 35201 # rest0 = c # u @ G @ s'" by simp_all
    from e2 c' obtain d'' where d2: "d' = c # d''" by (cases d') auto
    have "pre = take i pre @ [25688, 35201, c] @ d''"
      using d d0 d1 d1v d2 append_take_drop_id [of i pre] by simp
    then have "pre @ [25688, 35201] = take i pre @ [25688, 35201, c] @ (d'' @ [25688, 35201])" by simp
    then have "contains (pre @ [25688, 35201]) [25688, 35201, c]"
      unfolding contains_iff by (intro exI)
    with assms c show False by blast
  qed
qed

lemma contains_set: "contains s k \<Longrightarrow> set k \<subseteq> set s"
  by (auto simp: contains_iff)

lemma no_marker_pre:
  assumes "\<forall>c \<in> set colons. \<not> contains X (summary_label @ [c])" and "c1 \<in> set colons"
  shows "\<forall>c \<in> set colons. \<not> contains ((26631 # 39064 # c1 # X @ [10]) @ [25688, 35201]) [25688, 35201, c]"
proof (intro ballI notI)
  fix c assume c: "c \<in> set colons"
    and "contains ((26631 # 39064 # c1 # X @ [10]) @ [25688, 35201]) [25688, 35201, c]"
  then have "contains ((26631 # 39064 # c1 # X) @ 10 # [25688, 35201]) [25688, 35201, c]" by simp
  moreover have "10 \<notin> set [25688, 35201, c]" using c by (auto simp: colons_def)
  ultimately have "contains (26631 # 39064 # c1 # X) [25688, 35201, c] \<or>
      contains [25688, 35201] [25688, 35201, c]"
    by (rule contains_across)
  moreover have "\<not> contains [25688, 35201] [25688, 35201, c]"
    using contains_length [of "[25688, 35201]" "[25688, 35201, c]"] by auto
  moreover have "\<not> contains X [25688, 35201, c]"
    using assms(1) c by (simp add: summary_label_def)
  ultimately show False using assms(2) by (auto simp: startswith_def colons_def)
qed

lemma startswith_prefix_len: "length k \<le> length a \<Longrightarrow> startswith (a @ b) k = startswith a k"
  by (simp add: startswith_def)

lemma split_once_skip:
  assumes "sep \<noteq> []"
  shows "\<not> contains (p @ butlast sep) sep \<Longrightarrow> split_once sep (p @ sep @ post) = Some (p, post)"
proof (induction p)
  case Nil
  obtain c sep' where sep: "sep = c # sep'" using assms by (cases sep) auto
  have "startswith (sep @ post) sep" by (simp add: startswith_def)
  then show ?case using sep by simp
next
  case (Cons c p)
  from Cons.prems have a: "\<not> startswith ((c # p @ butlast sep)) sep"
    and b: "\<not> contains (p @ butlast sep) sep" by simp_all
  have "c # p @ sep @ post = (c # p @ butlast sep) @ ([last sep] @ post)"
    using assms by simp
  moreover have "length sep \<le> length (c # p @ butlast sep)" by simp
  ultimately have "startswith (c # p @ sep @ post) sep = startswith (c # p @ butlast sep) sep"
    using startswith_prefix_len by metis
  with a have "\<not> startswith (c # p @ sep @ post) sep" by simp
  with Cons.IH [OF b] show ?case by simp
qed

lemma no_marker_tr:
  assumes "\<forall>c \<in> set colons. \<not> contains X (summary_label @ [c])" and "c1 \<in> set colons"
    and "list_all isspace Y"
  shows "\<not> contains (26631 # 39064 # c1 # X @ 10 # 25688 # 35201 # 58 # Y) summary_marker"
proof
  assume "contains (26631 # 39064 # c1 # X @ 10 # 25688 # 35201 # 58 # Y) summary_marker"
  then have "contains ((26631 # 39064 # c1 # X) @ 10 # (25688 # 35201 # 58 # Y)) [25688, 35201, 65306]"
    by (simp add: summary_marker_def)
  moreover have "10 \<notin> set [25688, 35201, 65306::nat]" by simp
  ultimately have "contains (26631 # 39064 # c1 # X) [25688, 35201, 65306] \<or>
      contains (25688 # 35201 # 58 # Y) [25688, 35201, 65306]"
    by (rule contains_across)
  moreover have "\<not> contains X [25688, 35201, 65306]"
    using assms(1) by (simp add: summary_label_def colons_def)
  moreover have "\<not> contains Y [25688, 35201, 65306]"
  proof
    assume "contains Y [25688, 35201, 65306]"
    from contains_set [OF this] have "25688 \<in> set Y" by simp
    with assms(3) show False by (auto simp: list_all_iff isspace_def)
  qed
  ultimately show False using assms(2) by (auto simp: startswith_def colons_def)
qed

lemma layout_summary:
  fixes X Y :: str and c1 c2 :: nat
  defines "tr \<equiv> 26631 # 39064 # c1 # X @ 10 # 25688 # 35201 # c2 # Y"
  assumes c: "c1 \<in> set colons" "c2 \<in> set colons"
    and X: "\<forall>c \<in> set colons. \<not> contains X (summary_label @ [c])"
    and Y: "10 \<notin> set Y"
    and one: "c2 = 58 \<longrightarrow> length Y \<noteq> 1 \<or> list_all isspace Y"
    and sm: "(case re_search summary_pattern tr of Some m \<Rightarrow> group1_str m | None \<Rightarrow> Inr []) = Inr s"
    and fin: "(if strip s = [] \<and> contains tr summary_marker
               then map_sum id strip (item1 (split1 summary_marker tr))
               else Inr (strip s)) = Inr r"
  shows "r = strip Y"
proof -
  let ?pre = "26631 # 39064 # c1 # X @ [10]"
  have nm: "\<forall>c \<in> set colons. \<not> contains (?pre @ [25688, 35201]) [25688, 35201, c]"
    by (rule no_marker_pre [OF X c(1)])
  have tr: "tr = ?pre @ 25688 # 35201 # c2 # Y" by (simp add: tr_def)
  have skip: "re_search summary_pattern tr =
      search_from summary_pattern (bol_after True ?pre) (25688 # 35201 # c2 # Y)"
    unfolding re_search_def tr by (rule summary_skip [OF nm])
  have S: "strip s = strip Y \<or> (s = [] \<and> length Y \<le> 1)"
  proof (cases "2 \<le> length Y")
    case True
    from summary_exists [OF c(2) True Y]
    have "ms summary_pattern (bol_after True ?pre, 25688 # 35201 # c2 # Y, None) \<noteq> []" .
    from search_from_first [OF this] skip obtain m where
      m: "re_search summary_pattern tr = Some m"
         "m \<in> set (ms summary_pattern (bol_after True ?pre, 25688 # 35201 # c2 # Y, None))"
      by auto
    from summary_at_label [OF m(2) Y] obtain G where "group1 m = Some G" "strip G = strip Y"
      by (elim exE conjE)
    with sm m(1) show ?thesis by (simp add: group1_str_def)
  next
    case False
    then have "length Y \<le> 1" by simp
    from summary_short [OF this] skip have "re_search summary_pattern tr = None" by simp
    with sm False show ?thesis by simp
  qed
  show ?thesis
  proof (cases "strip s = []")
    case False
    with S have "strip s = strip Y" by (auto simp: strip_def)
    with fin False show ?thesis by simp
  next
    case True
    show ?thesis
    proof (cases "c2 = 65306")
      case c2: True
      have tr2: "tr = ?pre @ summary_marker @ Y" using c2 by (simp add: tr_def summary_marker_def)
      have "\<not> contains (?pre @ butlast summary_marker) summary_marker"
        using nm c2 c(2) by (simp add: summary_marker_def)
      from split_once_skip [OF _ this, of Y]
      have sp: "split_once summary_marker tr = Some (?pre, Y)"
        unfolding tr2 by (simp add: summary_marker_def)
      have "contains tr summary_marker" unfolding tr2 contains_iff by (intro exI) (rule refl)
      with fin True sp show ?thesis by (simp add: split1_def item1_def)
    next
      case False
      with c(2) have c2: "c2 = 58" by (simp add: colons_def)
      have "strip Y = []"
      proof (cases "strip s = strip Y")
        case True
        with \<open>strip s = []\<close> show ?thesis by simp
      next
        case False
        with S have "length Y \<le> 1" by simp
        with one c2 have "list_all isspace Y" by (cases Y) auto
        then show ?thesis by (rule strip_blank)
      qed
      then have "list_all isspace Y" by (simp add: strip_Nil_iff)
      from no_marker_tr [OF X c(1) this] have "\<not> contains tr summary_marker"
        by (simp add: tr_def c2)
      with fin True \<open>strip Y = []\<close> show ?thesis by simp
    qed
  qed
qed

text \<open>
  C2, amended. For a translation that consists of the title label, a colon and a space,
  \<open>X\<close>, a newline, the summary label, a colon and a space, and \<open>Y\<close>, where \<open>X\<close> and
  \<open>Y\<close> contain no newline, \<open>X\<close> has a character that is not whitespace and \<open>X\<close> does
  not contain the summary label followed by a colon, the extracted title is \<open>X\<close>
  stripped and the extracted summary is \<open>Y\<close> stripped.
\<close>

theorem extract_layout_title_summary:
  assumes "extract_paper_info paper_data = Inr p"
    and "dict_get paper_data (asc ''translation'') (JStr []) = Inr (JStr tr)"
    and "tr = title_label @ asc '': '' @ X @ [10] @ summary_label @ asc '': '' @ Y"
    and "10 \<notin> set X" and "10 \<notin> set Y"
    and "\<not> list_all isspace X"
    and "\<not> contains X (summary_label @ asc '':'')"
    and "\<not> contains X summary_marker"
  shows "title p = strip X \<and> summary p = strip Y"
proof -
  have tr: "tr = 26631 # 39064 # 58 # (32 # X) @ 10 # 25688 # 35201 # 58 # (32 # Y)"
    using assms(3) by (simp add: title_label_def summary_label_def asc_def)
  have c: "58 \<in> set colons" by (simp add: colons_def)
  have sp: "strip (32 # Z) = strip Z" for Z
    using strip_ws [of "[32]" "[]" Z] by (simp add: isspace_def)
  from extract_Inr [OF assms(1,2)] obtain t s where
    t: "(case (case re_search title_pattern tr of
                 None \<Rightarrow> re_search fallback_pattern tr | Some m \<Rightarrow> Some m) of
           Some m \<Rightarrow> group1_str m
         | None \<Rightarrow> bind_exn (dict_get paper_data (asc ''title'') (JStr [])) strip_receiver) = Inr t"
    and pt: "title p = strip t"
    and s: "(case re_search summary_pattern tr of
               Some m \<Rightarrow> group1_str m | None \<Rightarrow> Inr []) = Inr s"
    and fin: "(if strip s = [] \<and> contains tr summary_marker
               then map_sum id strip (item1 (split1 summary_marker tr))
               else Inr (strip s)) = Inr (summary p)"
    by (elim exE conjE)
  have X1: "10 \<notin> set (32 # X)" "\<not> list_all isspace (32 # X)" using assms(4,6) by simp_all
  from layout_title [OF X1 c c, of "32 # Y"] obtain m G where
    "re_search title_pattern tr = Some m" "group1 m = Some G" "strip G = strip (32 # X)"
    unfolding tr by (elim exE conjE)
  with t have "t = G" by (simp add: group1_str_def)
  with pt \<open>strip G = strip (32 # X)\<close> have title: "title p = strip X" by (simp add: sp)
  have X2: "\<forall>c \<in> set colons. \<not> contains (32 # X) (summary_label @ [c])"
    using assms(7,8)
    by (simp add: colons_def summary_label_def summary_marker_def asc_def startswith_def)
  have Y1: "10 \<notin> set (32 # Y)" using assms(5) by simp
  have one: "(58::nat) = 58 \<longrightarrow> length (32 # Y) \<noteq> 1 \<or> list_all isspace (32 # Y)"
    by (cases Y) (simp_all add: isspace_def)
  from layout_summary [OF c c X2 Y1 one s [unfolded tr] fin [unfolded tr]]
  have "summary p = strip (32 # Y)" .
  with title show ?thesis by (simp add: sp)
qed

theorem extract_layout_title_summary_witness:
  "extract_paper_info record_layout = Inr paper_layout \<and>
   10 \<notin> set layout_title_text \<and> 10 \<notin> set layout_summary_text \<and>
   \<not> list_all isspace layout_title_text \<and>
   \<not> contains layout_title_text (summary_label @ asc '':'') \<and>
   \<not> contains layout_title_text summary_marker \<and>
   title paper_layout = strip layout_title_text \<and>
   summary paper_layout = strip layout_summary_text \<and>
   strip layout_title_text = [35270, 35273, 32, 27169, 22411]"
proof -
  have d: "dict_get record_layout (asc ''translation'') (JStr []) =
      Inr (JStr (title_label @ asc '': '' @ layout_title_text @ [10] @
                 summary_label @ asc '': '' @ layout_summary_text))"
    by (simp add: record_layout_def asc_def)
  have h: "10 \<notin> set layout_title_text" "10 \<notin> set layout_summary_text"
    "\<not> list_all isspace layout_title_text"
    "\<not> contains layout_title_text (summary_label @ asc '':'')"
    "\<not> contains layout_title_text summary_marker"
    by (simp_all add: layout_title_text_def layout_summary_text_def asc_def isspace_def
        summary_label_def summary_marker_def startswith_def)
  have s: "strip layout_title_text = [35270, 35273, 32, 27169, 22411]"
    by (simp add: layout_title_text_def asc_def strip_def isspace_def)
  from extract_layout_title_summary [OF eval_layout d refl h] eval_layout h s show ?thesis by simp
qed

text \<open>
  C2 as stated, for every \<open>X\<close> and \<open>Y\<close>, fails. With an empty \<open>X\<close> the \<open>\s*\<close> of the
  title pattern runs over the newline and the title is the whole summary line; with an
  \<open>X\<close> that contains the summary label and a colon the summary pattern matches in the
  title line first.
\<close>

theorem extract_layout_counterexample:
  "extract_paper_info record_blank_title = Inr paper_blank_title \<and>
   title paper_blank_title \<noteq> strip [] \<and>
   extract_paper_info record_label_in_title = Inr paper_label_in_title \<and>
   summary paper_label_in_title \<noteq> strip (asc ''cd'')"
  by (simp add: eval_blank_title eval_label_in_title paper_blank_title_def
      paper_label_in_title_def strip_def asc_def isspace_def summary_label_def)

end
